theory Spec2Isabelle
  imports Main "HOL-Library.Word"
begin

section \<open>Data model (load\_limiter.go)\<close>

text \<open>
  All counters of the limiter are Go \<open>uint64\<close> values; they are modelled as 64-bit
  words, so that \<open>+\<close>, \<open>-\<close> and \<open>*\<close> wrap around as they do in the source.
  A \<open>time.Duration\<close> is an \<open>int64\<close> number of nanoseconds: a 64-bit word read
  through \<open>sint\<close>.

  The deque of the source holds pointers to segment objects, newest at the front, and the
  code updates the \<open>Value\<close> of a segment through such a pointer. One object can be
  referenced from more than one position of a queue (\<open>ensureLatestNSegments\<close> can push
  the same pointer twice), so the segments live in an explicit store: \<open>Segments\<close> maps
  the address of a segment object to its contents, and \<open>WindowQueue\<close> is the list of the
  addresses held by the deque, its head being the front.

  An object created by the source (\<open>&windowSegment{...}\<close>) is different from every
  object that is still referenced. Segment objects are referenced only from the queue of
  their tenant (and from local variables while a function runs), so the model gives a new
  object an address above all addresses of the queue at hand (\<open>freshAddress\<close>); the
  address of an object that has left the queue can be taken again, which no operation can
  observe.

  A run-time panic of the source (reading the front of an empty deque, an index out of
  range, an integer division by zero, the explicit \<open>panic\<close> of \<open>computeRetryIn\<close>)
  is the value \<open>None\<close>. Logging has no effect on the state and is left out; running out
  of memory is not modelled.
\<close>

type_synonym u64 = "64 word"
type_synonym duration = "64 word"

record windowSegment =
  StartTime :: u64
  Value :: u64

type_synonym segmentStore = "nat \<Rightarrow> windowSegment"

record tenantData =
  Segments :: segmentStore
  WindowQueue :: "nat list"
  WasOver :: bool
  WindowTotal :: u64
  Version :: u64

text \<open>
  The effective configuration. \<open>RequestOverheadPenaltyFactor\<close> is a \<open>float64\<close> in the
  source and is used only in
  \<open>penalty := math.Round(RequestOverheadPenaltyFactor * float64(RequestedLoad))\<close>,
  followed by the test \<open>penalty >= 1.0\<close> and the conversion \<open>uint64(penalty)\<close>.
  The floating-point computation is taken as a parameter: \<open>RequestOverheadPenalty load\<close>
  is \<open>None\<close> when the rounded penalty is below 1.0, and \<open>Some (uint64 penalty)\<close>
  otherwise.
\<close>

record config =
  MaxLoad :: u64
  WindowSize :: u64
  WindowSegmentSize :: u64
  NumSegments :: u64
  SkipRetryInComputing :: bool
  ApplyOverstepPenalty :: bool
  AbsoluteOverstepPenalty :: u64
  OverstepPenaltySegmentSpan :: u64
  ApplyRequestOverheadPenalty :: bool
  RequestOverheadPenalty :: "u64 \<Rightarrow> u64 option"
  RequestOverheadPenaltySegmentSpan :: u64
  ApplyPenaltyCapping :: bool
  AbsoluteMaxPenaltyCap :: u64

text \<open>The request record of the source, without the tenant pointer: the tenant state is
  passed to every function and returned updated.\<close>

record submitRequest =
  RequestedLoad :: u64
  RequestedTimestamp :: u64
  RequestSegmentStartTime :: u64

record SubmitResult =
  Accepted :: bool
  RetryInAvailable :: bool
  RetryIn :: duration

datatype goll_error = ExcessiveLoad | InconsistentQueue

definition newTenantData :: tenantData where
  "newTenantData =
     \<lparr>Segments = (\<lambda>a. \<lparr>StartTime = 0, Value = 0\<rparr>), WindowQueue = [],
      WasOver = False, WindowTotal = 0, Version = 1\<rparr>"

definition freshAddress :: "nat list \<Rightarrow> nat" where
  "freshAddress queue = Suc (Max (set (0 # queue)))"

text \<open>The segments of the queue, front first, read through the store.\<close>

definition queueSegments :: "tenantData \<Rightarrow> windowSegment list" where
  "queueSegments tenant = map (Segments tenant) (WindowQueue tenant)"

definition markDirty :: "tenantData \<Rightarrow> tenantData" where
  "markDirty tenant = tenant\<lparr>Version := Version tenant + 1\<rparr>"

section \<open>Window engine (window.go)\<close>

definition locateSegmentStartTime :: "config \<Rightarrow> u64 \<Rightarrow> u64 option" where
  "locateSegmentStartTime cfg t =
     (if WindowSegmentSize cfg = 0 then None
      else Some ((t div WindowSegmentSize cfg) * WindowSegmentSize cfg))"

definition buildLoadRequest :: "config \<Rightarrow> u64 \<Rightarrow> u64 \<Rightarrow> submitRequest option" where
  "buildLoadRequest cfg t load =
     (case locateSegmentStartTime cfg t of
        None \<Rightarrow> None
      | Some s \<Rightarrow> Some \<lparr>RequestedLoad = load, RequestedTimestamp = t,
                         RequestSegmentStartTime = s\<rparr>)"

subsection \<open>ensureLatestNSegments\<close>

text \<open>
  The first loop fills \<open>validSegments\<close> (a Go map from start time to segment pointer, a
  later index overwriting an earlier one) from the first \<open>numSegments\<close> queue entries
  and decides whether the queue has to be rebuilt.
\<close>

definition validSegments :: "segmentStore \<Rightarrow> nat \<Rightarrow> nat list \<Rightarrow> u64 \<Rightarrow> nat option" where
  "validSegments store n queue =
     map_of (rev (map (\<lambda>segmentAtIndex. (StartTime (store segmentAtIndex), segmentAtIndex))
                      (take n queue)))"

definition rebuildQueue :: "config \<Rightarrow> segmentStore \<Rightarrow> u64 \<Rightarrow> nat \<Rightarrow> nat list \<Rightarrow> bool" where
  "rebuildQueue cfg store latest n queue =
     list_ex (\<lambda>i. length queue \<le> i \<or>
                  StartTime (store (queue ! i)) \<noteq> latest - of_nat i * WindowSegmentSize cfg)
             [0..<n]"

text \<open>The second loop keeps, from the back, the old segments that start before the rebuilt
  range, stopping at the first one that does not.\<close>

definition keptOldSegments :: "segmentStore \<Rightarrow> u64 \<Rightarrow> nat list \<Rightarrow> nat list" where
  "keptOldSegments store rebuildStart queue =
     rev (takeWhile (\<lambda>oldSegment. StartTime (store oldSegment) < rebuildStart) (rev queue))"

text \<open>The third loop counts a signed \<open>int64(numSegments - 1)\<close> down to 0 and pushes one
  pointer per step at the front of the new queue: the pointer found in \<open>validSegments\<close>
  for the start time of the step, or else a new segment object. The loop is given the
  indices in the order it visits them; the new object of step \<open>i\<close> gets the address
  \<open>base + i\<close>.\<close>

fun pushRebuilt :: "config \<Rightarrow> (u64 \<Rightarrow> nat option) \<Rightarrow> u64 \<Rightarrow> nat \<Rightarrow> nat list \<Rightarrow> nat list \<Rightarrow>
    segmentStore \<Rightarrow> nat list \<times> segmentStore" where
  "pushRebuilt cfg valid latest base [] newQueue store = (newQueue, store)"
| "pushRebuilt cfg valid latest base (i # steps) newQueue store =
     (case valid (latest - of_nat i * WindowSegmentSize cfg) of
        Some inValidCache \<Rightarrow>
          pushRebuilt cfg valid latest base steps (inValidCache # newQueue) store
      | None \<Rightarrow>
          pushRebuilt cfg valid latest base steps ((base + i) # newQueue)
            (store(base + i := \<lparr>StartTime = latest - of_nat i * WindowSegmentSize cfg,
                                  Value = 0\<rparr>)))"

definition ensureLatestNSegments :: "config \<Rightarrow> submitRequest \<Rightarrow> u64 \<Rightarrow> tenantData \<Rightarrow> tenantData" where
  "ensureLatestNSegments cfg req numSegments tenant =
     (let latest = RequestSegmentStartTime req;
          queue = WindowQueue tenant;
          store = Segments tenant
      in if \<not> rebuildQueue cfg store latest (unat numSegments) queue then tenant
         else
           (case pushRebuilt cfg (validSegments store (unat numSegments) queue) latest
                   (freshAddress queue)
                   (if sint (numSegments - 1) < 0 then [] else rev [0..<unat numSegments])
                   (keptOldSegments store
                      (latest - (numSegments - 1) * WindowSegmentSize cfg) queue)
                   store of
              (newQueue, store') \<Rightarrow> tenant\<lparr>Segments := store', WindowQueue := newQueue\<rparr>))"

subsection \<open>distributePenalty\<close>

text \<open>\<open>segmentDistribution\<close>: \<open>amountPerSegment\<close> for each of the \<open>numSegmentsMax\<close>
  entries, the first \<open>amount % numSegmentsMax\<close> of them incremented by one.\<close>

definition segmentDistribution :: "u64 \<Rightarrow> u64 \<Rightarrow> u64 \<Rightarrow> u64 list" where
  "segmentDistribution amount numSegmentsMax amountPerSegment =
     map (\<lambda>i. if i < unat (amount mod numSegmentsMax) then amountPerSegment + 1
               else amountPerSegment)
         [0..<unat numSegmentsMax]"

text \<open>The last loop adds entry \<open>i\<close> of the distribution to the segment object that the
  queue holds at index \<open>i\<close>, and to the window total; \<open>At\<close> panics on an index out of
  range.\<close>

fun addToSegments :: "u64 list \<Rightarrow> nat list \<Rightarrow> segmentStore \<Rightarrow> segmentStore option" where
  "addToSegments [] queue store = Some store"
| "addToSegments (sv # svs) [] store = None"
| "addToSegments (sv # svs) (segment # queue) store =
     addToSegments svs queue
       (store(segment := (store segment)\<lparr>Value := Value (store segment) + sv\<rparr>))"

definition distributePenalty :: "config \<Rightarrow> submitRequest \<Rightarrow> u64 \<Rightarrow> u64 \<Rightarrow> tenantData \<Rightarrow> tenantData option" where
  "distributePenalty cfg req amount numSegmentsMax tenant =
     (if amount \<le> 0 then Some tenant
      else if numSegmentsMax = 0 then None
      else
        let amountPerSegment0 = amount div numSegmentsMax;
            numSegmentsMax' = (if amountPerSegment0 < 1 then amount else numSegmentsMax);
            amountPerSegment = (if amountPerSegment0 < 1 then 1 else amountPerSegment0);
            dist = segmentDistribution amount numSegmentsMax' amountPerSegment;
            tenant1 = ensureLatestNSegments cfg req numSegmentsMax' tenant
        in case addToSegments dist (WindowQueue tenant1) (Segments tenant1) of
             None \<Rightarrow> None
           | Some store' \<Rightarrow>
               Some (tenant1\<lparr>Segments := store',
                             WindowTotal := WindowTotal tenant1 + sum_list dist\<rparr>))"

subsection \<open>rotateWindow\<close>

text \<open>Removal of the buckets that lie in the future of the request (entered with a
  non-empty queue): returns the remaining queue, the removed load and the window total.\<close>

fun removeFutureBuckets :: "segmentStore \<Rightarrow> u64 \<Rightarrow> nat list \<Rightarrow> u64 \<Rightarrow> u64 \<Rightarrow> nat list \<times> u64 \<times> u64" where
  "removeFutureBuckets store s [] removed wtotal = ([], removed, wtotal)"
| "removeFutureBuckets store s (frontBucket # queue) removed wtotal =
     (if StartTime (store frontBucket) \<le> s then (frontBucket # queue, removed, wtotal)
      else removeFutureBuckets store s queue (removed + Value (store frontBucket))
             (wtotal - Value (store frontBucket)))"

text \<open>Removal of the obsolete segments from the back; the argument list is the queue
  oldest first.\<close>

fun removeObsolete :: "segmentStore \<Rightarrow> u64 \<Rightarrow> nat list \<Rightarrow> u64 \<Rightarrow> bool \<Rightarrow> nat list \<times> u64 \<times> bool" where
  "removeObsolete store removeBefore [] wtotal dirty = ([], wtotal, dirty)"
| "removeObsolete store removeBefore (oldest # older) wtotal dirty =
     (if StartTime (store oldest) \<le> removeBefore
      then removeObsolete store removeBefore older
             (if Value (store oldest) \<noteq> 0 then wtotal - Value (store oldest) else wtotal) True
      else (oldest # older, wtotal, dirty))"

definition rotateNeeded :: "config \<Rightarrow> submitRequest \<Rightarrow> tenantData \<Rightarrow> bool" where
  "rotateNeeded cfg req tenant =
     (\<not> (WindowQueue tenant \<noteq> [] \<and>
         StartTime (Segments tenant (hd (WindowQueue tenant))) = RequestSegmentStartTime req \<and>
         StartTime (Segments tenant (last (WindowQueue tenant))) >
           RequestSegmentStartTime req - WindowSize cfg))"

definition rotateWindow :: "config \<Rightarrow> submitRequest \<Rightarrow> tenantData \<Rightarrow> tenantData option" where
  "rotateWindow cfg req tenant =
     (let s = RequestSegmentStartTime req;
          queue = WindowQueue tenant;
          store = Segments tenant
      in if \<not> rotateNeeded cfg req tenant then Some tenant
         else
           let (queue1, removedLoadToRestore, total1) =
                 (if queue \<noteq> [] \<and> StartTime (store (hd queue)) > s
                  then removeFutureBuckets store s queue 0 (WindowTotal tenant)
                  else (queue, 0, WindowTotal tenant));
               (queue2, store2, dirty2) =
                 (if queue1 = [] \<or> StartTime (store (hd queue1)) \<noteq> s
                  then (freshAddress queue1 # queue1,
                        store(freshAddress queue1 := \<lparr>StartTime = s, Value = 0\<rparr>), True)
                  else (queue1, store, False));
               (queue3, total3, dirty3) =
                 (if length queue2 > 1
                  then (case removeObsolete store2 (RequestedTimestamp req - WindowSize cfg)
                               (rev queue2) total1 dirty2 of
                          (older, wtotal, dirty) \<Rightarrow> (rev older, wtotal, dirty))
                  else (queue2, total1, dirty2));
               tenant3 = tenant\<lparr>Segments := store2, WindowQueue := queue3,
                                WindowTotal := total3\<rparr>
           in if removedLoadToRestore > 0
              then map_option markDirty (distributePenalty cfg req removedLoadToRestore 1 tenant3)
              else Some (if dirty3 then markDirty tenant3 else tenant3))"

subsection \<open>Capping\<close>

text \<open>The loop of \<open>removeFromOldestSegments\<close>, on the queue oldest first: returns the
  remaining queue, the window total, the amount that could not be removed and the store.
  Once a segment has absorbed the whole amount, \<open>amount\<close> is 0 and the loop is left.\<close>

fun removeLoop :: "u64 \<Rightarrow> nat list \<Rightarrow> u64 \<Rightarrow> segmentStore \<Rightarrow> nat list \<times> u64 \<times> u64 \<times> segmentStore" where
  "removeLoop amount [] wtotal store = ([], wtotal, amount, store)"
| "removeLoop amount (oldestSegment # newer) wtotal store =
     (if \<not> amount > 0 then (oldestSegment # newer, wtotal, amount, store)
      else if Value (store oldestSegment) \<ge> amount
      then (if Value (store oldestSegment) - amount \<le> 0
            then (newer, wtotal - amount, 0,
                  store(oldestSegment :=
                    (store oldestSegment)\<lparr>Value := Value (store oldestSegment) - amount\<rparr>))
            else (oldestSegment # newer, wtotal - amount, 0,
                  store(oldestSegment :=
                    (store oldestSegment)\<lparr>Value := Value (store oldestSegment) - amount\<rparr>)))
      else removeLoop (amount - Value (store oldestSegment)) newer
             (wtotal - Value (store oldestSegment))
             (store(oldestSegment := (store oldestSegment)\<lparr>Value := 0\<rparr>)))"

definition removeFromOldestSegments :: "submitRequest \<Rightarrow> u64 \<Rightarrow> tenantData \<Rightarrow> tenantData" where
  "removeFromOldestSegments req amount tenant =
     (case removeLoop amount (rev (WindowQueue tenant)) (WindowTotal tenant)
             (Segments tenant) of
        (older, wtotal, rest, store') \<Rightarrow>
          if older = []
          then tenant\<lparr>Segments := store'(freshAddress [] :=
                          \<lparr>StartTime = RequestSegmentStartTime req, Value = 0\<rparr>),
                      WindowQueue := [freshAddress []],
                      WindowTotal := wtotal\<rparr>
          else tenant\<lparr>Segments := store', WindowQueue := rev older, WindowTotal := wtotal\<rparr>)"

definition applyCapping :: "config \<Rightarrow> submitRequest \<Rightarrow> tenantData \<Rightarrow> tenantData" where
  "applyCapping cfg req tenant =
     (if \<not> ApplyPenaltyCapping cfg then tenant
      else if WindowTotal tenant > AbsoluteMaxPenaltyCap cfg
      then removeFromOldestSegments req (WindowTotal tenant - AbsoluteMaxPenaltyCap cfg) tenant
      else tenant)"

subsection \<open>computeRetryIn\<close>

text \<open>The walk over the segments of the queue, oldest first, with the signed \<open>int64\<close>
  counter \<open>toFree\<close>: returns the counter and \<open>mostRecentSegmentRemovalTime\<close>. The walk
  only reads the segments; it is given their contents, read through the store.\<close>

fun retryWalk :: "windowSegment list \<Rightarrow> u64 \<Rightarrow> u64 \<Rightarrow> u64 \<times> u64" where
  "retryWalk [] toFree mostRecent = (toFree, mostRecent)"
| "retryWalk (segment # newer) toFree mostRecent =
     (if 0 < sint toFree
      then retryWalk newer
             (if Value segment > 0 then toFree - Value segment else toFree)
             (StartTime segment)
      else (toFree, mostRecent))"

definition computeRetryIn :: "config \<Rightarrow> submitRequest \<Rightarrow> tenantData \<Rightarrow> (goll_error + duration) option" where
  "computeRetryIn cfg req tenant =
     (if RequestedLoad req > MaxLoad cfg then Some (Inl ExcessiveLoad)
      else
        let toFree = RequestedLoad req + WindowTotal tenant - MaxLoad cfg
        in if sint toFree \<le> 0 then Some (Inr 0)
           else
             case retryWalk (map (Segments tenant) (rev (WindowQueue tenant))) toFree 0 of
               (toFree', mostRecentSegmentRemovalTime) \<Rightarrow>
                 if mostRecentSegmentRemovalTime = 0 \<or> 0 < sint toFree'
                 then Some (Inl InconsistentQueue)
                 else
                   let minSegmentAvailTime = mostRecentSegmentRemovalTime + WindowSize cfg
                   in if minSegmentAvailTime < RequestedTimestamp req then None
                      else Some (Inr (1000000 * (minSegmentAvailTime - RequestedTimestamp req))))"

section \<open>Limiter core\<close>

definition probe :: "config \<Rightarrow> submitRequest \<Rightarrow> tenantData \<Rightarrow> (bool \<times> tenantData) option" where
  "probe cfg req tenant =
     (case rotateWindow cfg req tenant of
        None \<Rightarrow> None
      | Some tenant' \<Rightarrow>
          Some (WindowTotal tenant' + RequestedLoad req \<le> MaxLoad cfg, tenant'))"

definition acceptLoad :: "config \<Rightarrow> submitRequest \<Rightarrow> tenantData \<Rightarrow> tenantData option" where
  "acceptLoad cfg req tenant =
     (case WindowQueue tenant of
        [] \<Rightarrow> None
      | currentSegment # older \<Rightarrow>
          Some (markDirty (applyCapping cfg req
            (tenant\<lparr>Segments := (Segments tenant)(currentSegment :=
                       (Segments tenant currentSegment)
                         \<lparr>Value := Value (Segments tenant currentSegment) + RequestedLoad req\<rparr>),
                     WasOver := False,
                     WindowTotal := WindowTotal tenant + RequestedLoad req\<rparr>))))"

text \<open>The penalty part of \<open>rejectLoad\<close>: returns the tenant with the flags \<open>someAdded\<close>
  and \<open>dirty\<close>.\<close>

definition rejectPenalty :: "config \<Rightarrow> submitRequest \<Rightarrow> tenantData \<Rightarrow> (tenantData \<times> bool \<times> bool) option" where
  "rejectPenalty cfg req tenant =
     (if \<not> WasOver tenant then
        (if ApplyOverstepPenalty cfg then
           (case distributePenalty cfg req (AbsoluteOverstepPenalty cfg)
                   (OverstepPenaltySegmentSpan cfg) tenant of
              None \<Rightarrow> None
            | Some tenant' \<Rightarrow> Some (tenant'\<lparr>WasOver := True\<rparr>, True, True))
         else Some (tenant\<lparr>WasOver := True\<rparr>, False, True))
      else if ApplyRequestOverheadPenalty cfg then
        (case RequestOverheadPenalty cfg (RequestedLoad req) of
           None \<Rightarrow> Some (tenant, False, False)
         | Some penalty \<Rightarrow>
             (case distributePenalty cfg req penalty
                     (RequestOverheadPenaltySegmentSpan cfg) tenant of
                None \<Rightarrow> None
              | Some tenant' \<Rightarrow> Some (tenant', True, True)))
      else Some (tenant, False, False))"

definition rejected :: SubmitResult where
  "rejected = \<lparr>Accepted = False, RetryInAvailable = False, RetryIn = 0\<rparr>"

definition rejectLoad :: "config \<Rightarrow> submitRequest \<Rightarrow> tenantData \<Rightarrow> (SubmitResult \<times> tenantData) option" where
  "rejectLoad cfg req tenant =
     (case rejectPenalty cfg req tenant of
        None \<Rightarrow> None
      | Some (tenant1, someAdded, dirty) \<Rightarrow>
          let tenant2 = (if someAdded then applyCapping cfg req tenant1 else tenant1);
              tenant3 = (if dirty then markDirty tenant2 else tenant2)
          in if \<not> SkipRetryInComputing cfg then
               (case computeRetryIn cfg req tenant3 of
                  None \<Rightarrow> None
                | Some (Inr retryIn) \<Rightarrow>
                    Some (\<lparr>Accepted = False, RetryInAvailable = True, RetryIn = retryIn\<rparr>,
                          tenant3)
                | Some (Inl err) \<Rightarrow> Some (rejected, tenant3))
             else Some (rejected, tenant3))"


subsection \<open>The limiter and its public operations\<close>

text \<open>
  A limiter owns its configuration and the map of its tenants; \<open>getTenant\<close> creates the
  state of a tenant on first reference. The public operations are modelled for a limiter
  without a sync adapter, where \<open>withSyncTransaction\<close> runs the task and nothing else;
  the time of the call, read from the injected clock, is the argument \<open>t\<close> in
  milliseconds.
\<close>

record loadLimiter =
  Config :: config
  TenantData :: "string \<Rightarrow> tenantData option"

definition getTenant :: "loadLimiter \<Rightarrow> string \<Rightarrow> tenantData" where
  "getTenant instance key =
     (case TenantData instance key of Some existing \<Rightarrow> existing | None \<Rightarrow> newTenantData)"

definition setTenant :: "loadLimiter \<Rightarrow> string \<Rightarrow> tenantData \<Rightarrow> loadLimiter" where
  "setTenant instance key tenant =
     instance\<lparr>TenantData := (TenantData instance)(key \<mapsto> tenant)\<rparr>"

definition Probe :: "loadLimiter \<Rightarrow> u64 \<Rightarrow> string \<Rightarrow> u64 \<Rightarrow> (bool \<times> loadLimiter) option" where
  "Probe instance t tenantKey load =
     (case buildLoadRequest (Config instance) t load of
        None \<Rightarrow> None
      | Some req \<Rightarrow>
          (case probe (Config instance) req (getTenant instance tenantKey) of
             None \<Rightarrow> None
           | Some (result, tenant') \<Rightarrow> Some (result, setTenant instance tenantKey tenant')))"


definition Stats :: "loadLimiter \<Rightarrow> string \<Rightarrow> (u64 \<times> u64 list) \<times> loadLimiter" where
  "Stats instance tenantKey =
     (let tenant = getTenant instance tenantKey
      in ((WindowTotal tenant, map Value (queueSegments tenant)),
          setTenant instance tenantKey tenant))"

section \<open>Composite limiter\<close>

text \<open>
  A composite holds an ordered list of member limiters (distinct objects, built one per
  member configuration by \<open>NewComposite\<close>). The loop of \<open>submit\<close> builds the request
  of each member, probes it and, when the probe fails, calls \<open>rejectLoad\<close> on it at once
  and keeps the highest wait time; the requests are kept for the second phase.
\<close>

record compositeLoadLimiter =
  Limiters :: "loadLimiter list"

fun probePhase :: "u64 \<Rightarrow> string \<Rightarrow> u64 \<Rightarrow> loadLimiter list \<Rightarrow> bool \<Rightarrow> duration \<Rightarrow>
    ((loadLimiter \<times> submitRequest) list \<times> bool \<times> duration) option" where
  "probePhase t tenantKey load [] allAccepted highestWaitTime =
     Some ([], allAccepted, highestWaitTime)"
| "probePhase t tenantKey load (limiter # limiters) allAccepted highestWaitTime =
     (case buildLoadRequest (Config limiter) t load of
        None \<Rightarrow> None
      | Some sr \<Rightarrow>
          (case probe (Config limiter) sr (getTenant limiter tenantKey) of
             None \<Rightarrow> None
           | Some (probeResult, tenant1) \<Rightarrow>
               if probeResult then
                 (case probePhase t tenantKey load limiters allAccepted highestWaitTime of
                    None \<Rightarrow> None
                  | Some (members, allAccepted', highest') \<Rightarrow>
                      Some ((setTenant limiter tenantKey tenant1, sr) # members,
                            allAccepted', highest'))
               else
                 (case rejectLoad (Config limiter) sr tenant1 of
                    None \<Rightarrow> None
                  | Some (rejectionResult, tenant2) \<Rightarrow>
                      (case probePhase t tenantKey load limiters False
                              (if RetryInAvailable rejectionResult \<and>
                                  (highestWaitTime = 0 \<or>
                                   sint (RetryIn rejectionResult) > sint highestWaitTime)
                               then RetryIn rejectionResult else highestWaitTime) of
                         None \<Rightarrow> None
                       | Some (members, allAccepted', highest') \<Rightarrow>
                           Some ((setTenant limiter tenantKey tenant2, sr) # members,
                                 allAccepted', highest')))))"

fun acceptPhase :: "string \<Rightarrow> (loadLimiter \<times> submitRequest) list \<Rightarrow> loadLimiter list option" where
  "acceptPhase tenantKey [] = Some []"
| "acceptPhase tenantKey ((limiter, req) # members) =
     (case acceptLoad (Config limiter) req (getTenant limiter tenantKey) of
        None \<Rightarrow> None
      | Some tenant' \<Rightarrow>
          (case acceptPhase tenantKey members of
             None \<Rightarrow> None
           | Some limiters' \<Rightarrow> Some (setTenant limiter tenantKey tenant' # limiters')))"

definition compositeSubmit :: "compositeLoadLimiter \<Rightarrow> u64 \<Rightarrow> string \<Rightarrow> u64 \<Rightarrow>
    (SubmitResult \<times> compositeLoadLimiter) option" where
  "compositeSubmit instance t tenantKey load =
     (case probePhase t tenantKey load (Limiters instance) True 0 of
        None \<Rightarrow> None
      | Some (members, allAccepted, highestWaitTime) \<Rightarrow>
          (case (if allAccepted then acceptPhase tenantKey members
                 else Some (map fst members)) of
             None \<Rightarrow> None
           | Some limiters' \<Rightarrow>
               Some (\<lparr>Accepted = allAccepted,
                      RetryInAvailable = (\<not> allAccepted \<and> 0 < sint highestWaitTime),
                      RetryIn = highestWaitTime\<rparr>,
                     instance\<lparr>Limiters := limiters'\<rparr>)))"

section \<open>Serialization codec (synchronization.go)\<close>

text \<open>
  Go strings are byte sequences: \<open>string\<close>. The functions of Go's standard library that
  the codec calls are written out from their documentation: \<open>%d\<close> of \<open>fmt.Sprintf\<close>
  on an unsigned integer (\<open>formatUint\<close>), \<open>strings.Split\<close> with a one-byte
  separator (\<open>splitOn\<close>), \<open>strings.TrimRight\<close> with a one-byte cutset
  (\<open>trimRight\<close>) and \<open>strconv.Atoi\<close>, which accepts an optional sign followed by
  at least one decimal digit and fails outside the range of \<open>int64\<close>.
\<close>

fun formatUint :: "nat \<Rightarrow> string" where
  "formatUint n =
     (if n < 10 then [char_of (48 + n)]
      else formatUint (n div 10) @ [char_of (48 + n mod 10)])"

fun splitOn :: "char \<Rightarrow> string \<Rightarrow> string list" where
  "splitOn sep [] = [[]]"
| "splitOn sep (c # cs) =
     (if c = sep then [] # splitOn sep cs
      else (case splitOn sep cs of
              [] \<Rightarrow> [[c]]
            | piece # pieces \<Rightarrow> (c # piece) # pieces))"

definition trimRight :: "char \<Rightarrow> string \<Rightarrow> string" where
  "trimRight cutset s = rev (dropWhile (\<lambda>c. c = cutset) (rev s))"

fun parseDigits :: "string \<Rightarrow> nat \<Rightarrow> nat option" where
  "parseDigits [] n = Some n"
| "parseDigits (c # cs) n =
     (if 48 \<le> (of_char c :: nat) \<and> (of_char c :: nat) \<le> 57
      then parseDigits cs (n * 10 + ((of_char c :: nat) - 48))
      else None)"

definition Atoi :: "string \<Rightarrow> int option" where
  "Atoi s =
     (case s of
        [] \<Rightarrow> None
      | c # cs \<Rightarrow>
          if c = CHR ''-'' then
            (if cs = [] then None
             else case parseDigits cs 0 of
                    None \<Rightarrow> None
                  | Some n \<Rightarrow> if n \<le> 2 ^ 63 then Some (- int n) else None)
          else
            (case parseDigits (if c = CHR ''+'' then cs else s) 0 of
               None \<Rightarrow> None
             | Some n \<Rightarrow>
                 if (c = CHR ''+'' \<and> cs = []) \<or> \<not> n < 2 ^ 63 then None
                 else Some (int n)))"

definition serializeSegments :: "windowSegment list \<Rightarrow> string" where
  "serializeSegments queue =
     concat (map (\<lambda>seg. formatUint (unat (StartTime seg)) @ '':'' @
                          formatUint (unat (Value seg)) @ '','') queue)"

definition serializeStatus :: "tenantData \<Rightarrow> string" where
  "serializeStatus tenant =
     ''v1/'' @ formatUint (unat (Version tenant)) @ ''/'' @
     formatUint (unat (WindowTotal tenant)) @ ''/'' @
     (if WasOver tenant then ''1'' else ''0'') @ ''/'' @
     (if length (WindowQueue tenant) > 0
      then trimRight CHR '','' (serializeSegments (queueSegments tenant))
      else serializeSegments (queueSegments tenant))"

datatype restore_error =
    InvalidSerializationVersion | InvalidNumberOfTokens | UnparsableVersion
  | OlderThanCurrent | UnparsableWindowTotal | InvalidSegmentFormat
  | UnparsableStartTime | UnparsableValue

text \<open>The loop over the serialized segments, last one first, each a new segment object
  pushed at the front of the cleared queue; an error leaves the queue as filled so far.\<close>

fun restoreSegments :: "string list \<Rightarrow> nat list \<Rightarrow> segmentStore \<Rightarrow>
    restore_error option \<times> nat list \<times> segmentStore" where
  "restoreSegments [] queue store = (None, queue, store)"
| "restoreSegments (s # rest) queue store =
     (case splitOn CHR '':'' s of
        [a, b] \<Rightarrow>
          (case Atoi a of
             None \<Rightarrow> (Some UnparsableStartTime, queue, store)
           | Some remoteStartTime \<Rightarrow>
               (case Atoi b of
                  None \<Rightarrow> (Some UnparsableValue, queue, store)
                | Some remoteValue \<Rightarrow>
                    restoreSegments rest (freshAddress queue # queue)
                      (store(freshAddress queue :=
                         \<lparr>StartTime = word_of_int remoteStartTime,
                          Value = word_of_int remoteValue\<rparr>))))
      | _ \<Rightarrow> (Some InvalidSegmentFormat, queue, store))"

definition restoreSerializedStatus :: "string \<Rightarrow> tenantData \<Rightarrow> restore_error option \<times> tenantData" where
  "restoreSerializedStatus serialized tenant =
     (let splitted = splitOn CHR ''/'' serialized
      in if hd splitted \<noteq> ''v1'' then (Some InvalidSerializationVersion, tenant)
         else if length splitted \<noteq> 5 then (Some InvalidNumberOfTokens, tenant)
         else
           (case Atoi (splitted ! 1) of
              None \<Rightarrow> (Some UnparsableVersion, tenant)
            | Some versionRaw \<Rightarrow>
                (let remoteVersion = (word_of_int versionRaw :: u64)
                 in if Version tenant = remoteVersion then (None, tenant)
                    else if remoteVersion < Version tenant then (Some OlderThanCurrent, tenant)
                    else
                      (case Atoi (splitted ! 2) of
                         None \<Rightarrow> (Some UnparsableWindowTotal, tenant)
                       | Some windowTotalRaw \<Rightarrow>
                           (let wasOver = (splitted ! 3 = ''1'')
                            in case restoreSegments (rev (splitOn CHR '','' (splitted ! 4))) []
                                      (Segments tenant) of
                                 (Some err, queue', store') \<Rightarrow>
                                   (Some err, tenant\<lparr>Segments := store', WindowQueue := queue'\<rparr>)
                               | (None, queue', store') \<Rightarrow>
                                   (None, tenant\<lparr>Segments := store', WindowQueue := queue',
                                                 WasOver := wasOver,
                                                 WindowTotal := word_of_int windowTotalRaw,
                                                 Version := remoteVersion\<rparr>))))))"

section \<open>Invariants of the data model\<close>








text \<open>What the segment object at address \<open>a\<close> receives when the shares are added, one per
  position, to the objects that the target positions hold: the sum of the shares of the
  positions that hold \<open>a\<close>.\<close>

definition receivedShares :: "nat list \<Rightarrow> u64 list \<Rightarrow> nat \<Rightarrow> u64" where
  "receivedShares targets shares a =
     sum_list (map snd (filter (\<lambda>p. fst p = a) (zip targets shares)))"


text \<open>The state of a tenant after a public operation that returned.\<close>

definition tenantAfter :: "('a \<times> loadLimiter) option \<Rightarrow> string \<Rightarrow> tenantData option" where
  "tenantAfter outcome tenantKey =
     (case outcome of
        None \<Rightarrow> None
      | Some (res, instance) \<Rightarrow> Some (getTenant instance tenantKey))"

text \<open>What can be observed of a tenant state: the segments of its queue, read through the
  store, and the three other fields.\<close>

record tenantView =
  Queue :: "windowSegment list"
  Over :: bool
  Total :: u64
  Ver :: u64

definition viewOf :: "tenantData \<Rightarrow> tenantView" where
  "viewOf tenant =
     \<lparr>Queue = queueSegments tenant, Over = WasOver tenant, Total = WindowTotal tenant,
      Ver = Version tenant\<rparr>"

subsection \<open>Observations on a composite\<close>

text \<open>What one member does for a composite submit, seen alone: \<open>memberProbe\<close> builds
  the member's request and probes it (result, request and rotated tenant state), and
  \<open>memberRejection\<close> is the result of \<open>rejectLoad\<close> for a member whose probe fails.
  \<open>rejectionResults\<close> lists the rejection results of the rejecting members in member
  order, and \<open>membersAfter\<close> the tenant states of the members after a submit that
  returned.\<close>

definition memberProbe :: "u64 \<Rightarrow> string \<Rightarrow> u64 \<Rightarrow> loadLimiter \<Rightarrow> (bool \<times> submitRequest \<times> tenantData) option" where
  "memberProbe t tenantKey load limiter =
     (case buildLoadRequest (Config limiter) t load of
        None \<Rightarrow> None
      | Some sr \<Rightarrow>
          (case probe (Config limiter) sr (getTenant limiter tenantKey) of
             None \<Rightarrow> None
           | Some (probeResult, rotated) \<Rightarrow> Some (probeResult, sr, rotated)))"

definition probesTrue :: "u64 \<Rightarrow> string \<Rightarrow> u64 \<Rightarrow> loadLimiter \<Rightarrow> bool" where
  "probesTrue t tenantKey load limiter =
     (case memberProbe t tenantKey load limiter of
        None \<Rightarrow> False
      | Some (probeResult, sr, rotated) \<Rightarrow> probeResult)"

definition memberRejection :: "u64 \<Rightarrow> string \<Rightarrow> u64 \<Rightarrow> loadLimiter \<Rightarrow> (SubmitResult \<times> tenantData) option" where
  "memberRejection t tenantKey load limiter =
     (case memberProbe t tenantKey load limiter of
        None \<Rightarrow> None
      | Some (probeResult, sr, rotated) \<Rightarrow>
          if probeResult then None else rejectLoad (Config limiter) sr rotated)"

definition rejectionResults :: "u64 \<Rightarrow> string \<Rightarrow> u64 \<Rightarrow> loadLimiter list \<Rightarrow> SubmitResult list" where
  "rejectionResults t tenantKey load limiters =
     concat (map (\<lambda>limiter. case memberRejection t tenantKey load limiter of
                              None \<Rightarrow> []
                            | Some (rejectionResult, tenant') \<Rightarrow> [rejectionResult])
                 limiters)"

definition membersAfter :: "('a \<times> compositeLoadLimiter) option \<Rightarrow> string \<Rightarrow> tenantData list option" where
  "membersAfter outcome tenantKey =
     (case outcome of
        None \<Rightarrow> None
      | Some (res, instance) \<Rightarrow>
          Some (map (\<lambda>limiter. getTenant limiter tenantKey) (Limiters instance)))"

subsection \<open>Concrete inputs\<close>

text \<open>The configuration of the repository's tests (maximum load 100, a window of ten
  one-second segments, penalty cap factor 0.5), with an overstep penalty of 22 spread over
  5 segments, and a limiter with no tenant yet.\<close>

definition exampleConfig :: config where
  "exampleConfig =
     \<lparr>MaxLoad = 100, WindowSize = 10000, WindowSegmentSize = 1000, NumSegments = 10,
      SkipRetryInComputing = False,
      ApplyOverstepPenalty = True, AbsoluteOverstepPenalty = 22,
      OverstepPenaltySegmentSpan = 5,
      ApplyRequestOverheadPenalty = False, RequestOverheadPenalty = (\<lambda>load. None),
      RequestOverheadPenaltySegmentSpan = 0,
      ApplyPenaltyCapping = True, AbsoluteMaxPenaltyCap = 150\<rparr>"

definition exampleLimiter :: loadLimiter where
  "exampleLimiter = \<lparr>Config = exampleConfig, TenantData = (\<lambda>key. None)\<rparr>"

definition exampleRequest :: "u64 \<Rightarrow> submitRequest" where
  "exampleRequest load =
     \<lparr>RequestedLoad = load, RequestedTimestamp = 1000500, RequestSegmentStartTime = 1000000\<rparr>"

text \<open>A tenant state whose queue holds the given segments, front first, each of them a
  separate object.\<close>

definition tenantOf :: "windowSegment list \<Rightarrow> bool \<Rightarrow> u64 \<Rightarrow> u64 \<Rightarrow> tenantData" where
  "tenantOf segments wasOver wtotal version =
     \<lparr>Segments = (\<lambda>a. if a < length segments then segments ! a
                       else \<lparr>StartTime = 0, Value = 0\<rparr>),
      WindowQueue = [0..<length segments],
      WasOver = wasOver, WindowTotal = wtotal, Version = version\<rparr>"

definition exampleTenant :: tenantData where
  "exampleTenant =
     tenantOf [\<lparr>StartTime = 1000000, Value = 60\<rparr>, \<lparr>StartTime = 998000, Value = 40\<rparr>]
       False 100 3"




text \<open>The two members of the composite of the repository's tests: the limiter above and a
  tighter one (maximum load 20 over a window of ten segments of 100 ms, no penalty).\<close>

definition exampleStrictLimiter :: loadLimiter where
  "exampleStrictLimiter =
     \<lparr>Config = \<lparr>MaxLoad = 20, WindowSize = 1000, WindowSegmentSize = 100, NumSegments = 10,
                 SkipRetryInComputing = False,
                 ApplyOverstepPenalty = False, AbsoluteOverstepPenalty = 0,
                 OverstepPenaltySegmentSpan = 0,
                 ApplyRequestOverheadPenalty = False, RequestOverheadPenalty = (\<lambda>load. None),
                 RequestOverheadPenaltySegmentSpan = 0,
                 ApplyPenaltyCapping = True, AbsoluteMaxPenaltyCap = 30\<rparr>,
      TenantData = (\<lambda>key. None)\<rparr>"




definition exampleComposite :: compositeLoadLimiter where
  "exampleComposite = \<lparr>Limiters = [exampleLimiter, exampleStrictLimiter]\<rparr>"


section \<open>Frame properties and arithmetic of the window engine\<close>

lemma freshAddress_above:
  "a \<in> set queue \<Longrightarrow> a < freshAddress queue"
proof -
  assume "a \<in> set queue"
  then have "a \<le> Max (set (0 # queue))" by (intro Max_ge) auto
  then show ?thesis by (simp add: freshAddress_def)
qed

lemma pushRebuilt_eq:
  "pushRebuilt cfg valid latest base steps newQueue store =
     (rev (map (\<lambda>i. case valid (latest - of_nat i * WindowSegmentSize cfg) of
                       Some a \<Rightarrow> a | None \<Rightarrow> base + i) steps) @ newQueue,
      fold (\<lambda>i st. case valid (latest - of_nat i * WindowSegmentSize cfg) of
                      Some a \<Rightarrow> st
                    | None \<Rightarrow> st(base + i := \<lparr>StartTime = latest - of_nat i * WindowSegmentSize cfg,
                                               Value = 0\<rparr>)) steps store)"
  by (induction steps arbitrary: newQueue store) (auto split: option.splits)

lemma rebuilt_store_below:
  "a < base \<Longrightarrow>
   fold (\<lambda>i st. case valid (latest - of_nat i * WindowSegmentSize cfg) of
                   Some a \<Rightarrow> st
                 | None \<Rightarrow> st(base + i := \<lparr>StartTime = latest - of_nat i * WindowSegmentSize cfg,
                                            Value = 0\<rparr>)) steps store a = store a"
  by (induction steps arbitrary: store) (auto split: option.splits)

lemma rebuilt_store_new:
  "i \<in> set steps \<Longrightarrow> valid (latest - of_nat i * WindowSegmentSize cfg) = None \<Longrightarrow>
   fold (\<lambda>i st. case valid (latest - of_nat i * WindowSegmentSize cfg) of
                   Some a \<Rightarrow> st
                 | None \<Rightarrow> st(base + i := \<lparr>StartTime = latest - of_nat i * WindowSegmentSize cfg,
                                            Value = 0\<rparr>)) steps store (base + i) =
     \<lparr>StartTime = latest - of_nat i * WindowSegmentSize cfg, Value = 0\<rparr>"
proof (induction steps arbitrary: store rule: rev_induct)
  case Nil
  then show ?case by simp
next
  case (snoc j steps)
  show ?case
  proof (cases "j = i")
    case True
    with snoc.prems show ?thesis by simp
  next
    case False
    with snoc.prems have "i \<in> set steps" by simp
    from snoc.IH[OF this snoc.prems(2)] False show ?thesis
      by (auto split: option.splits)
  qed
qed


lemma validSegments_Some:
  assumes "validSegments store n queue k = Some a"
  shows "a \<in> set queue" and "StartTime (store a) = k"
proof -
  from assms have "(k, a) \<in> set (rev (map (\<lambda>b. (StartTime (store b), b)) (take n queue)))"
    unfolding validSegments_def by (rule map_of_SomeD)
  then have "(k, a) \<in> (\<lambda>b. (StartTime (store b), b)) ` set (take n queue)"
    by (simp only: set_rev set_map)
  then have "a \<in> set (take n queue)" and "k = StartTime (store a)" by auto
  then show "a \<in> set queue" and "StartTime (store a) = k"
    by (auto dest: in_set_takeD)
qed

lemma ensureLatestNSegments_frame:
  "Version (ensureLatestNSegments cfg req n tenant) = Version tenant"
  "WasOver (ensureLatestNSegments cfg req n tenant) = WasOver tenant"
  "WindowTotal (ensureLatestNSegments cfg req n tenant) = WindowTotal tenant"
  by (simp_all add: ensureLatestNSegments_def Let_def pushRebuilt_eq)

lemma ensureLatestNSegments_old_segments:
  assumes "a < freshAddress (WindowQueue tenant)"
  shows "Segments (ensureLatestNSegments cfg req n tenant) a = Segments tenant a"
  using assms
  by (simp add: ensureLatestNSegments_def Let_def pushRebuilt_eq rebuilt_store_below)

lemma rebuildQueue_False_iff:
  "\<not> rebuildQueue cfg store latest n queue \<longleftrightarrow>
     n \<le> length queue \<and>
     (\<forall>i<n. StartTime (store (queue ! i)) = latest - of_nat i * WindowSegmentSize cfg)"
proof (cases n)
  case 0
  then show ?thesis by (simp add: rebuildQueue_def)
next
  case (Suc m)
  show ?thesis
  proof
    assume a: "\<not> rebuildQueue cfg store latest n queue"
    then have all: "\<forall>i<n. i < length queue \<and>
        StartTime (store (queue ! i)) = latest - of_nat i * WindowSegmentSize cfg"
      by (auto simp: rebuildQueue_def list_ex_iff)
    then have "m < length queue" using Suc by auto
    then show "n \<le> length queue \<and>
       (\<forall>i<n. StartTime (store (queue ! i)) = latest - of_nat i * WindowSegmentSize cfg)"
      using all Suc by auto
  next
    assume "n \<le> length queue \<and>
       (\<forall>i<n. StartTime (store (queue ! i)) = latest - of_nat i * WindowSegmentSize cfg)"
    then show "\<not> rebuildQueue cfg store latest n queue"
      by (auto simp: rebuildQueue_def list_ex_iff)
  qed
qed

text \<open>After \<open>ensureLatestNSegments\<close> the queue holds at least \<open>n\<close> entries, and entry
  \<open>i\<close> of the first \<open>n\<close> starts at the request's segment start minus \<open>i\<close> segment
  sizes.\<close>

lemma ensureLatestNSegments_targets:
  assumes ns: "0 \<le> sint (n - 1)"
  shows "unat n \<le> length (WindowQueue (ensureLatestNSegments cfg req n tenant))"
    and "\<forall>i<unat n.
           StartTime (Segments (ensureLatestNSegments cfg req n tenant)
                        (WindowQueue (ensureLatestNSegments cfg req n tenant) ! i)) =
             RequestSegmentStartTime req - of_nat i * WindowSegmentSize cfg"
proof -
  let ?s = "RequestSegmentStartTime req"
  let ?queue = "WindowQueue tenant"
  let ?store = "Segments tenant"
  let ?valid = "validSegments ?store (unat n) ?queue"
  let ?base = "freshAddress ?queue"
  let ?addr = "\<lambda>i. case ?valid (?s - of_nat i * WindowSegmentSize cfg) of
                       Some a \<Rightarrow> a | None \<Rightarrow> ?base + i"
  let ?upd = "\<lambda>i st. case ?valid (?s - of_nat i * WindowSegmentSize cfg) of
                      Some a \<Rightarrow> st
                    | None \<Rightarrow> st(?base + i := \<lparr>StartTime = ?s - of_nat i * WindowSegmentSize cfg,
                                                Value = 0\<rparr>)"
  let ?kept = "keptOldSegments ?store (?s - (n - 1) * WindowSegmentSize cfg) ?queue"
  let ?t' = "ensureLatestNSegments cfg req n tenant"
  have both: "unat n \<le> length (WindowQueue ?t') \<and>
      (\<forall>i<unat n. StartTime (Segments ?t' (WindowQueue ?t' ! i)) =
                     ?s - of_nat i * WindowSegmentSize cfg)"
  proof (cases "rebuildQueue cfg ?store ?s (unat n) ?queue")
    case False
    then have same: "?t' = tenant" by (simp add: ensureLatestNSegments_def Let_def)
    from False show ?thesis unfolding same rebuildQueue_False_iff by simp
  next
    case True
    have "sint (n - 1) < 0 \<longleftrightarrow> False" using ns by simp
    then have eq: "?t' = tenant\<lparr>Segments := fold ?upd (rev [0..<unat n]) ?store,
                             WindowQueue := rev (map ?addr (rev [0..<unat n])) @ ?kept\<rparr>"
      unfolding ensureLatestNSegments_def Let_def pushRebuilt_eq using True
      by (simp only: if_True if_False not_True_eq_False prod.case)
    have q: "WindowQueue ?t' = map ?addr [0..<unat n] @ ?kept"
      unfolding eq by (simp add: rev_map)
    have st: "Segments ?t' = fold ?upd (rev [0..<unat n]) ?store"
      unfolding eq by simp
    have len: "unat n \<le> length (WindowQueue ?t')" unfolding q by simp
    have "StartTime (Segments ?t' (WindowQueue ?t' ! i)) = ?s - of_nat i * WindowSegmentSize cfg"
      if i: "i < unat n" for i
    proof -
      have nth: "WindowQueue ?t' ! i = ?addr i"
        unfolding q using i by (simp add: nth_append split: option.splits)
      show ?thesis
      proof (cases "?valid (?s - of_nat i * WindowSegmentSize cfg)")
        case None
        have "i \<in> set (rev [0..<unat n])" using i by simp
        from rebuilt_store_new[where valid="?valid" and latest="?s" and cfg=cfg and i=i
            and steps="rev [0..<unat n]" and base="?base" and store="?store", OF this None]
        show ?thesis unfolding nth st using None by simp
      next
        case (Some a)
        from validSegments_Some[OF Some] have "a < ?base" and "StartTime (?store a) = ?s - of_nat i * WindowSegmentSize cfg"
          by (simp_all add: freshAddress_above)
        then show ?thesis unfolding nth st using Some
          by (simp add: rebuilt_store_below)
      qed
    qed
    with len show ?thesis by blast
  qed
  from both show "unat n \<le> length (WindowQueue ?t')" by blast
  from both show "\<forall>i<unat n. StartTime (Segments ?t' (WindowQueue ?t' ! i)) =
                     ?s - of_nat i * WindowSegmentSize cfg" by blast
qed

lemma addToSegments_Some:
  "length dist \<le> length queue \<Longrightarrow> \<exists>store'. addToSegments dist queue store = Some store'"
  by (induction dist queue store rule: addToSegments.induct) auto

lemma addToSegments_length:
  "addToSegments dist queue store = Some store' \<Longrightarrow> length dist \<le> length queue"
  by (induction dist queue store rule: addToSegments.induct) auto

lemma receivedShares_Cons:
  "receivedShares (b # targets) (sv # shares) a =
     (if b = a then sv else 0) + receivedShares targets shares a"
  by (simp add: receivedShares_def)

lemma addToSegments_store:
  "addToSegments dist queue store = Some store' \<Longrightarrow>
   store' a = (store a)\<lparr>Value := Value (store a) + receivedShares queue dist a\<rparr>"
proof (induction dist queue store rule: addToSegments.induct)
  case (1 queue store)
  then show ?case by (simp add: receivedShares_def)
next
  case (2 sv svs store)
  then show ?case by simp
next
  case (3 sv svs segment queue store)
  from "3.prems" have "addToSegments svs queue
       (store(segment := (store segment)\<lparr>Value := Value (store segment) + sv\<rparr>)) = Some store'"
    by simp
  from "3.IH"[OF this] show ?case
    by (simp add: receivedShares_Cons algebra_simps)
qed



lemma zip_take_left:
  "zip queue dist = zip (take (length dist) queue) dist"
  by (induction queue dist rule: list_induct2') auto

lemma receivedShares_take:
  "receivedShares queue dist a = receivedShares (take (length dist) queue) dist a"
  unfolding receivedShares_def by (subst zip_take_left) simp

lemma receivedShares_notin:
  "a \<notin> set targets \<Longrightarrow> receivedShares targets shares a = 0"
proof -
  assume "a \<notin> set targets"
  then have "filter (\<lambda>p. fst p = a) (zip targets shares) = []"
    by (auto simp: filter_empty_conv dest: set_zip_leftD)
  then show ?thesis by (simp add: receivedShares_def)
qed

lemma receivedShares_unique:
  "length targets = length shares \<Longrightarrow> i < length targets \<Longrightarrow>
   (\<forall>j<length targets. j \<noteq> i \<longrightarrow> targets ! j \<noteq> targets ! i) \<Longrightarrow>
   receivedShares targets shares (targets ! i) = shares ! i"
proof (induction targets shares arbitrary: i rule: list_induct2)
  case Nil
  then show ?case by simp
next
  case (Cons b targets sv shares)
  show ?case
  proof (cases i)
    case 0
    have "b \<notin> set targets"
    proof
      assume "b \<in> set targets"
      then obtain k where "k < length targets" "targets ! k = b"
        by (auto simp: in_set_conv_nth)
      with Cons.prems(2)[rule_format, of "Suc k"] 0 show False by simp
    qed
    from receivedShares_notin[OF this] 0 show ?thesis by (simp add: receivedShares_Cons)
  next
    case (Suc k)
    from Cons.prems(2)[rule_format, of 0] Suc have ne: "b \<noteq> targets ! k" by simp
    have "\<forall>j<length targets. j \<noteq> k \<longrightarrow> targets ! j \<noteq> targets ! k"
    proof (intro allI impI)
      fix j assume "j < length targets" "j \<noteq> k"
      with Cons.prems(2)[rule_format, of "Suc j"] Suc show "targets ! j \<noteq> targets ! k" by simp
    qed
    from Cons.IH[OF _ this] Cons.prems(1) Suc ne show ?thesis
      by (simp add: receivedShares_Cons)
  qed
qed

lemma distributePenalty_frame:
  assumes "distributePenalty cfg req amount n tenant = Some tenant'"
  shows "Version tenant' = Version tenant" and "WasOver tenant' = WasOver tenant"
  using assms
  by (auto simp: distributePenalty_def Let_def ensureLatestNSegments_frame
           split: if_splits option.splits)

lemma rotateWindow_not_needed:
  "\<not> rotateNeeded cfg req tenant \<Longrightarrow> rotateWindow cfg req tenant = Some tenant"
  by (simp add: rotateWindow_def)

lemma rotateWindow_Version:
  assumes "rotateWindow cfg req tenant = Some tenant'"
  shows "Version tenant' = Version tenant \<or> Version tenant' = Version tenant + 1"
  using assms
  by (auto simp: rotateWindow_def Let_def markDirty_def split: if_splits prod.splits
           dest: distributePenalty_frame(1))

lemma rotateWindow_WasOver:
  assumes "rotateWindow cfg req tenant = Some tenant'"
  shows "WasOver tenant' = WasOver tenant"
  using assms
  by (auto simp: rotateWindow_def Let_def markDirty_def split: if_splits prod.splits
           dest: distributePenalty_frame(2))

lemma removeFutureBuckets_older:
  "queue = [] \<or> StartTime (store (hd queue)) \<le> s \<Longrightarrow>
   removeFutureBuckets store s queue removed wtotal = (queue, removed, wtotal)"
  by (cases queue) auto

lemma removeObsolete_dirty:
  "removeObsolete store rb older wtotal True = (q, w, d) \<Longrightarrow> d"
  by (induction older arbitrary: wtotal) (auto split: if_splits)

lemma rotateWindow_push_Version:
  assumes "rotateWindow cfg req tenant = Some tenant'"
    and "WindowQueue tenant = [] \<or>
         StartTime (Segments tenant (hd (WindowQueue tenant))) < RequestSegmentStartTime req"
  shows "Version tenant' = Version tenant + 1"
proof -
  have needed: "rotateNeeded cfg req tenant"
    using assms(2) by (auto simp: rotateNeeded_def)
  have nofuture: "\<not> (WindowQueue tenant \<noteq> [] \<and>
      StartTime (Segments tenant (hd (WindowQueue tenant))) > RequestSegmentStartTime req)"
    using assms(2) by auto
  have push: "WindowQueue tenant = [] \<or>
      StartTime (Segments tenant (hd (WindowQueue tenant))) \<noteq> RequestSegmentStartTime req"
    using assms(2) by auto
  show ?thesis
    using assms(1) needed nofuture push
    by (auto simp: rotateWindow_def Let_def markDirty_def split: if_splits prod.splits
             dest: removeObsolete_dirty)
qed


lemma sum_list_shares:
  fixes p :: "'a::comm_semiring_1"
  shows "r \<le> n \<Longrightarrow>
    sum_list (map (\<lambda>i. if i < r then p + 1 else p) [0..<n]) = of_nat n * p + of_nat r"
proof (induction n arbitrary: r)
  case 0
  then show ?case by simp
next
  case (Suc n)
  show ?case
  proof (cases "r \<le> n")
    case True
    from Suc.IH[OF True] True show ?thesis by (simp add: algebra_simps)
  next
    case False
    with Suc.prems have r: "r = Suc n" by simp
    have eq: "map (\<lambda>i. if i < Suc n then p + 1 else p) [0..<n] =
          map (\<lambda>i. if i < n then p + 1 else p) [0..<n]"
      by (intro map_cong) auto
    have "sum_list (map (\<lambda>i. if i < Suc n then p + 1 else p) [0..<n]) =
          of_nat n * p + of_nat n"
      unfolding eq using Suc.IH[of n] by simp
    then show ?thesis using r by (simp add: algebra_simps)
  qed
qed


lemma sint_of_small:
  fixes x :: u64
  assumes "unat x < 2 ^ 63"
  shows "sint x = int (unat x)"
proof -
  have "uint x = int (unat x)" by simp
  also have "\<dots> < int (2 ^ 63)" using assms by (simp only: of_nat_less_iff)
  finally have "uint x < 2 ^ 63" by simp
  moreover have "- (2 ^ 63) \<le> uint x"
  proof -
    have "(0::int) \<le> 2 ^ 63" by simp
    then show ?thesis using uint_ge_0[of x] by linarith
  qed
  ultimately have "signed_take_bit 63 (uint x) = uint x"
    by (intro signed_take_bit_int_eq_self)
  then show ?thesis by (simp add: sint_uint)
qed


lemma sint_of_large:
  fixes x :: u64
  assumes "2 ^ 63 \<le> unat x"
  shows "sint x = int (unat x) - 2 ^ 64"
proof -
  have "int (2 ^ 63) \<le> int (unat x)" using assms by (simp only: of_nat_le_iff)
  also have "\<dots> = uint x" by simp
  finally have lo: "2 ^ 63 \<le> uint x" by simp
  have hi: "uint x < 2 ^ 64" using uint_bounded[of x] by simp
  have "signed_take_bit 63 (uint x) = take_bit 64 (uint x + 2 ^ 63) - 2 ^ 63"
    by (simp add: signed_take_bit_eq_take_bit_shift)
  also have "take_bit 64 (uint x + 2 ^ 63) = uint x + 2 ^ 63 - 2 ^ 64"
  proof -
    have "take_bit 64 (uint x + 2 ^ 63) = (uint x + 2 ^ 63) mod 2 ^ 64"
      by (simp add: take_bit_eq_mod)
    also have "\<dots> = (uint x + 2 ^ 63 - 2 ^ 64) mod 2 ^ 64"
      by (metis mod_diff_right_eq mod_self diff_zero)
    also have "\<dots> = uint x + 2 ^ 63 - 2 ^ 64"
      using lo hi by (intro mod_pos_pos_trivial) auto
    finally show ?thesis .
  qed
  finally show ?thesis by (simp add: sint_uint)
qed


lemma word_div_less_one_iff:
  fixes a b :: u64
  assumes "b \<noteq> 0"
  shows "a div b < 1 \<longleftrightarrow> a < b"
proof -
  have "a div b < 1 \<longleftrightarrow> unat a div unat b = 0"
    by (simp add: word_less_nat_alt unat_div)
  also have "\<dots> \<longleftrightarrow> unat a < unat b"
    using assms by (simp add: div_eq_0_iff unat_eq_zero)
  finally show ?thesis by (simp add: word_less_nat_alt)
qed


lemma unat_minus_one_bound:
  fixes n :: u64
  assumes "1 \<le> n" "unat n \<le> 2 ^ 63"
  shows "0 \<le> sint (n - 1)"
proof -
  have "unat (n - 1) = unat n - 1"
    using assms(1) by (simp add: unat_sub)
  moreover have "0 < unat n" using assms(1) by (simp add: word_le_nat_alt)
  ultimately have "unat (n - 1) < 2 ^ 63" using assms(2) by linarith
  then show ?thesis by (simp add: sint_of_small)
qed


lemma segmentDistribution_sum:
  fixes amount n :: u64
  assumes "n \<noteq> 0"
  shows "sum_list (segmentDistribution amount n (amount div n)) = amount"
proof -
  have r: "unat (amount mod n) \<le> unat n"
  proof -
    have "0 < unat n" using assms by (simp add: unat_gt_0)
    then have "unat amount mod unat n < unat n" by simp
    then show ?thesis by (simp add: unat_mod)
  qed
  have "sum_list (segmentDistribution amount n (amount div n)) =
        of_nat (unat n) * (amount div n) + of_nat (unat (amount mod n))"
    unfolding segmentDistribution_def by (rule sum_list_shares[OF r])
  also have "\<dots> = n * (amount div n) + amount mod n" by simp
  also have "\<dots> = amount" by (simp add: mult_div_mod_eq)
  finally show ?thesis .
qed


lemma share_unat:
  fixes amount n :: u64
  assumes "n \<noteq> 0"
  shows "unat (if i < unat (amount mod n) then amount div n + 1 else amount div n) =
         (if i < unat amount mod unat n then unat amount div unat n + 1
          else unat amount div unat n)"
proof (cases "i < unat (amount mod n)")
  case False
  then show ?thesis by (simp add: unat_div unat_mod)
next
  case True
  then have pos: "0 < unat amount mod unat n" by (simp add: unat_mod)
  have npos: "0 < unat n" using assms by (simp add: unat_gt_0)
  have "unat amount = unat n * (unat amount div unat n) + unat amount mod unat n" by simp
  then have "unat amount div unat n < unat amount"
    using pos npos
    by (metis div_less_dividend mod_less_divisor
        less_one mod_less nat_neq_iff not_less_zero)
  then have "unat (amount div n) + 1 < 2 ^ 64"
    using unsigned_less[of amount, where 'a=nat] by (simp add: unat_div)
  then have "unat (amount div n + 1) = unat (amount div n) + 1"
    by (simp add: unat_add_lem[THEN iffD1])
  with True show ?thesis by (simp add: unat_div unat_mod)
qed


lemma sum_shares_nat:
  fixes d r m :: nat
  assumes "r \<le> m"
  shows "(\<Sum>i<m. if i < r then d + 1 else d) = m * d + r"
proof -
  have "sum_list (map (\<lambda>i. if i < r then d + 1 else d) [0..<m]) =
        (\<Sum>i<m. if i < r then d + 1 else d)"
    unfolding interv_sum_list_conv_sum_set_nat by (simp only: set_upt lessThan_atLeast0)
  moreover have "sum_list (map (\<lambda>i. if i < r then d + 1 else d) [0..<m]) = of_nat m * d + of_nat r"
    by (rule sum_list_shares[OF assms])
  ultimately show ?thesis by simp
qed


lemma shares_ge_one:
  fixes amount n :: u64
  assumes "n \<noteq> 0" and "n \<le> amount"
  shows "1 \<le> unat (if i < unat (amount mod n) then amount div n + 1 else amount div n)"
proof -
  have npos: "0 < unat n" using assms(1) by (simp add: unat_gt_0)
  have "unat n \<le> unat amount" using assms(2) by (simp only: word_le_nat_alt)
  then have "1 \<le> unat amount div unat n"
    using npos by (simp add: Suc_le_eq div_greater_zero_iff)
  then show ?thesis unfolding share_unat[OF assms(1)] by (simp split: if_splits)
qed


lemma shares_total:
  fixes amount n :: u64
  assumes "n \<noteq> 0"
  shows "(\<Sum>i<unat n. unat (if i < unat (amount mod n) then amount div n + 1
                              else amount div n)) = unat amount"
proof -
  have npos: "0 < unat n" using assms(1) by (simp add: unat_gt_0)
  then have r: "unat amount mod unat n \<le> unat n" by (simp add: less_imp_le)
  have "(\<Sum>i<unat n. unat (if i < unat (amount mod n) then amount div n + 1
                              else amount div n)) =
        (\<Sum>i<unat n. if i < unat amount mod unat n then unat amount div unat n + 1
                        else unat amount div unat n)"
    by (simp only: share_unat[OF assms(1)])
  also have "\<dots> = unat n * (unat amount div unat n) + unat amount mod unat n"
    by (rule sum_shares_nat[OF r])
  also have "\<dots> = unat amount" by (rule mult_div_mod_eq)
  finally show ?thesis .
qed


lemma distributePenalty_eq:
  fixes amount numSegmentsMax :: u64
  assumes A: "1 \<le> amount" and N: "1 \<le> numSegmentsMax"
    and Nb: "unat numSegmentsMax \<le> 2 ^ 63"
    and n_def: "n = (if amount < numSegmentsMax then amount else numSegmentsMax)"
    and prepared_def: "prepared = ensureLatestNSegments cfg req n tenant"
    and targets_def: "targets = take (unat n) (WindowQueue prepared)"
    and share_def: "share = (\<lambda>i. if i < unat (amount mod n) then amount div n + 1
                              else amount div n)"
  shows "length targets = unat n"
    and "\<forall>i<unat n. StartTime (Segments prepared (targets ! i)) =
           RequestSegmentStartTime req - of_nat i * WindowSegmentSize cfg"
    and "distributePenalty cfg req amount numSegmentsMax tenant =
           Some (prepared
             \<lparr>Segments := (\<lambda>a. (Segments prepared a)
                  \<lparr>Value := Value (Segments prepared a) +
                            receivedShares targets (map share [0..<unat n]) a\<rparr>),
              WindowTotal := WindowTotal tenant + amount\<rparr>)"
proof -
  have A0: "amount \<noteq> 0" and N0: "numSegmentsMax \<noteq> 0" using A N by auto
  have n0: "n \<noteq> 0" using A0 N0 n_def by auto
  have n1: "1 \<le> n" using n0 by (simp add: word_le_nat_alt unat_gt_0 Suc_le_eq)
  have nN: "n \<le> numSegmentsMax" using n_def by auto
  then have nb: "unat n \<le> 2 ^ 63" using Nb by (simp add: word_le_nat_alt)
  have lt: "amount div numSegmentsMax < 1 \<longleftrightarrow> amount < numSegmentsMax"
    by (rule word_div_less_one_iff[OF N0])
  have per: "(if amount div numSegmentsMax < 1 then 1 else amount div numSegmentsMax) =
             amount div n"
  proof -
    have "unat (amount div amount) = 1"
      using A0 by (simp add: unat_div unat_gt_0)
    then have "amount div amount = 1" by (metis unat_1 word_unat_eq_iff)
    then show ?thesis using lt n_def by auto
  qed
  have nmax: "(if amount div numSegmentsMax < 1 then amount else numSegmentsMax) = n"
    using lt n_def by auto
  let ?dist = "segmentDistribution amount n (amount div n)"
  have dist: "?dist = map share [0..<unat n]"
    by (simp add: segmentDistribution_def share_def)
  note tg = ensureLatestNSegments_targets[OF unat_minus_one_bound[OF n1 nb], of cfg req tenant]
  show len: "length targets = unat n"
    unfolding targets_def prepared_def using tg(1) by simp
  show "\<forall>i<unat n. StartTime (Segments prepared (targets ! i)) =
           RequestSegmentStartTime req - of_nat i * WindowSegmentSize cfg"
    unfolding targets_def prepared_def using tg(2) by simp
  have "length ?dist \<le> length (WindowQueue prepared)"
    unfolding prepared_def using tg(1) by (simp add: dist)
  from addToSegments_Some[OF this]
  obtain store' where s': "addToSegments ?dist (WindowQueue prepared) (Segments prepared) =
      Some store'"
    by blast
  have rs: "receivedShares (WindowQueue prepared) ?dist a =
        receivedShares targets (map share [0..<unat n]) a" for a
    unfolding targets_def using receivedShares_take[of "WindowQueue prepared" ?dist a]
    by (simp add: dist)
  have seq: "store' = (\<lambda>a. (Segments prepared a)
                  \<lparr>Value := Value (Segments prepared a) +
                            receivedShares targets (map share [0..<unat n]) a\<rparr>)"
  proof (rule ext)
    fix a
    from addToSegments_store[OF s', of a] rs[of a]
    show "store' a = (Segments prepared a)
                  \<lparr>Value := Value (Segments prepared a) +
                            receivedShares targets (map share [0..<unat n]) a\<rparr>"
      by simp
  qed
  have wt: "WindowTotal prepared = WindowTotal tenant"
    unfolding prepared_def by (rule ensureLatestNSegments_frame(3))
  have "amount \<le> 0 \<longleftrightarrow> False" using A0 by simp
  then show "distributePenalty cfg req amount numSegmentsMax tenant =
           Some (prepared
             \<lparr>Segments := (\<lambda>a. (Segments prepared a)
                  \<lparr>Value := Value (Segments prepared a) +
                            receivedShares targets (map share [0..<unat n]) a\<rparr>),
              WindowTotal := WindowTotal tenant + amount\<rparr>)"
    unfolding distributePenalty_def Let_def per nmax prepared_def[symmetric] s' seq
    using N0 wt segmentDistribution_sum[OF n0, of amount]
    by simp
qed

section \<open>Penalty distribution\<close>

text \<open>
  Claim C9. For every amount \<open>A \<ge> 1\<close> and span \<open>N \<ge> 1\<close> (a span of at most
  \<open>2^63\<close>, so that the signed loop counter of \<open>ensureLatestNSegments\<close> is not
  negative), \<open>distributePenalty\<close> returns and adds exactly \<open>A\<close> to the window total.
  With \<open>n\<close> the span reduced to \<open>A\<close> when \<open>A < N\<close>, the targets are the segment
  objects at the first \<open>n\<close> positions of the queue that \<open>ensureLatestNSegments\<close>
  provides; target \<open>i\<close> starts \<open>i\<close> segment sizes before the request's segment. The
  first \<open>A mod n\<close> target positions receive \<open>A div n + 1\<close>, the others \<open>A div n\<close>,
  every share is at least 1 and the shares sum to \<open>A\<close> without overflow. The value of
  every segment object grows by the shares of the target positions that hold it: by exactly
  its share for an object held by one target position only, and by nothing for an object
  that is not a target; nothing else changes.
\<close>

theorem distributePenalty_adds_exactly_amount:
  fixes amount numSegmentsMax :: u64
  assumes "1 \<le> amount" and "1 \<le> numSegmentsMax" and "unat numSegmentsMax \<le> 2 ^ 63"
  shows "let n = (if amount < numSegmentsMax then amount else numSegmentsMax);
             prepared = ensureLatestNSegments cfg req n tenant;
             targets = take (unat n) (WindowQueue prepared);
             share = (\<lambda>i. if i < unat (amount mod n) then amount div n + 1 else amount div n)
         in length targets = unat n \<and>
            (\<forall>i<unat n. StartTime (Segments prepared (targets ! i)) =
               RequestSegmentStartTime req - of_nat i * WindowSegmentSize cfg) \<and>
            (\<forall>i<unat n. 1 \<le> unat (share i)) \<and>
            (\<Sum>i<unat n. unat (share i)) = unat amount \<and>
            distributePenalty cfg req amount numSegmentsMax tenant =
              Some (prepared
                \<lparr>Segments := (\<lambda>a. (Segments prepared a)
                     \<lparr>Value := Value (Segments prepared a) +
                               receivedShares targets (map share [0..<unat n]) a\<rparr>),
                 WindowTotal := WindowTotal tenant + amount\<rparr>) \<and>
            (\<forall>i<unat n. (\<forall>j<unat n. j \<noteq> i \<longrightarrow> targets ! j \<noteq> targets ! i) \<longrightarrow>
               receivedShares targets (map share [0..<unat n]) (targets ! i) = share i) \<and>
            (\<forall>a. a \<notin> set targets \<longrightarrow>
               receivedShares targets (map share [0..<unat n]) a = 0)"
proof -
  let ?n = "if amount < numSegmentsMax then amount else numSegmentsMax"
  let ?prepared = "ensureLatestNSegments cfg req ?n tenant"
  let ?targets = "take (unat ?n) (WindowQueue ?prepared)"
  let ?share = "\<lambda>i. if i < unat (amount mod ?n) then amount div ?n + 1 else amount div ?n"
  have a0: "amount \<noteq> 0" and m0: "numSegmentsMax \<noteq> 0"
    using assms(1,2) by auto
  have n0: "?n \<noteq> 0" using a0 m0 by simp
  have nA: "?n \<le> amount" by (simp add: not_less)
  note eq = distributePenalty_eq[OF assms refl refl refl refl, of cfg req tenant]
  have one: "\<forall>i<unat ?n. 1 \<le> unat (?share i)"
    using shares_ge_one[OF n0 nA] by blast
  have uniq: "\<forall>i<unat ?n. (\<forall>j<unat ?n. j \<noteq> i \<longrightarrow> ?targets ! j \<noteq> ?targets ! i) \<longrightarrow>
               receivedShares ?targets (map ?share [0..<unat ?n]) (?targets ! i) = ?share i"
  proof (intro allI impI)
    fix i assume i: "i < unat ?n"
      and d: "\<forall>j<unat ?n. j \<noteq> i \<longrightarrow> ?targets ! j \<noteq> ?targets ! i"
    have l: "length ?targets = length (map ?share [0..<unat ?n])" using eq(1) by simp
    have il: "i < length ?targets" using i eq(1) by simp
    have dl: "\<forall>j<length ?targets. j \<noteq> i \<longrightarrow> ?targets ! j \<noteq> ?targets ! i"
      using d eq(1) by simp
    from receivedShares_unique[OF l il dl] i
    show "receivedShares ?targets (map ?share [0..<unat ?n]) (?targets ! i) = ?share i"
      by simp
  qed
  have none: "\<forall>a. a \<notin> set ?targets \<longrightarrow>
      receivedShares ?targets (map ?share [0..<unat ?n]) a = 0"
    using receivedShares_notin by blast
  show ?thesis
    unfolding Let_def
    by (intro conjI eq(1) eq(2) one shares_total[OF n0] eq(3) uniq none)
qed

text \<open>Witness: 11 over 3 segments of a queue with a gap gives the shares 4, 4 and 3. The
  second input is a request in the first window after time 0 (timestamp 1600, segment
  start 1000) with 22 over 5 segments: the start of the rebuilt range wraps around, the
  old segment is kept at the back and found again for the front, and its one object, held
  by the first target position and by the last position of the queue, receives the share
  5 once.\<close>

theorem distributePenalty_adds_exactly_amount_witness:
  "(1::u64) \<le> 11 \<and> (1::u64) \<le> 3 \<and> unat (3::u64) \<le> 2 ^ 63 \<and>
   map_option viewOf (distributePenalty exampleConfig (exampleRequest 1) 11 3 exampleTenant) =
     Some \<lparr>Queue = [\<lparr>StartTime = 1000000, Value = 64\<rparr>,
                     \<lparr>StartTime = 999000, Value = 4\<rparr>,
                     \<lparr>StartTime = 998000, Value = 43\<rparr>],
           Over = False, Total = 111, Ver = 3\<rparr> \<and>
   map_option WindowTotal
       (distributePenalty exampleConfig (exampleRequest 1) 11 3 exampleTenant) =
     Some (WindowTotal exampleTenant + 11) \<and>
   map_option viewOf
       (distributePenalty exampleConfig
          \<lparr>RequestedLoad = 1, RequestedTimestamp = 1600, RequestSegmentStartTime = 1000\<rparr>
          22 5 (tenantOf [\<lparr>StartTime = 1000, Value = 100\<rparr>] False 100 3)) =
     Some \<lparr>Queue = [\<lparr>StartTime = 1000, Value = 105\<rparr>,
                     \<lparr>StartTime = 0, Value = 5\<rparr>,
                     \<lparr>StartTime = 18446744073709550616, Value = 4\<rparr>,
                     \<lparr>StartTime = 18446744073709549616, Value = 4\<rparr>,
                     \<lparr>StartTime = 18446744073709548616, Value = 4\<rparr>,
                     \<lparr>StartTime = 1000, Value = 105\<rparr>],
           Over = False, Total = 122, Ver = 3\<rparr>"
proof -
  have h1: "(1::u64) \<le> 11" and h2: "(1::u64) \<le> 3" and h3: "unat (3::u64) \<le> 2 ^ 63"
    by simp_all
  have v: "map_option viewOf
       (distributePenalty exampleConfig (exampleRequest 1) 11 3 exampleTenant) =
     Some \<lparr>Queue = [\<lparr>StartTime = 1000000, Value = 64\<rparr>,
                     \<lparr>StartTime = 999000, Value = 4\<rparr>,
                     \<lparr>StartTime = 998000, Value = 43\<rparr>],
           Over = False, Total = 111, Ver = 3\<rparr>"
    by code_simp
  have w: "map_option viewOf
       (distributePenalty exampleConfig
          \<lparr>RequestedLoad = 1, RequestedTimestamp = 1600, RequestSegmentStartTime = 1000\<rparr>
          22 5 (tenantOf [\<lparr>StartTime = 1000, Value = 100\<rparr>] False 100 3)) =
     Some \<lparr>Queue = [\<lparr>StartTime = 1000, Value = 105\<rparr>,
                     \<lparr>StartTime = 0, Value = 5\<rparr>,
                     \<lparr>StartTime = 18446744073709550616, Value = 4\<rparr>,
                     \<lparr>StartTime = 18446744073709549616, Value = 4\<rparr>,
                     \<lparr>StartTime = 18446744073709548616, Value = 4\<rparr>,
                     \<lparr>StartTime = 1000, Value = 105\<rparr>],
           Over = False, Total = 122, Ver = 3\<rparr>"
    by code_simp
  from distributePenalty_adds_exactly_amount[OF h1 h2 h3, of exampleConfig
          "exampleRequest 1" exampleTenant]
  have "\<exists>store'. distributePenalty exampleConfig (exampleRequest 1) 11 3 exampleTenant =
          Some ((ensureLatestNSegments exampleConfig (exampleRequest 1) 3 exampleTenant)
                  \<lparr>Segments := store', WindowTotal := WindowTotal exampleTenant + 11\<rparr>)"
    unfolding Let_def by auto
  then have t: "map_option WindowTotal
       (distributePenalty exampleConfig (exampleRequest 1) 11 3 exampleTenant) =
     Some (WindowTotal exampleTenant + 11)"
    by auto
  show ?thesis by (intro conjI h1 h2 h3 v t w)
qed

section \<open>Probe and the version counter\<close>

lemma getTenant_setTenant:
  "getTenant (setTenant instance key tenant) key = tenant"
  by (simp add: getTenant_def setTenant_def)

text \<open>
  Claim C1, as stated, fails: \<open>probe\<close> calls \<open>rotateWindow\<close>, which marks the tenant
  dirty whenever it pushes the current segment, evicts an obsolete one or restores load
  taken from future segments. The first probe of a fresh tenant pushes the current segment
  and moves the version from 1 to 2 (the repository's test \<open>TestSyncAdapter\<close> expects
  version 3 after one probe and one accepted submit).
\<close>

theorem Probe_version_counterexample:
  "map_option viewOf (tenantAfter (Probe exampleLimiter 1000500 ''tenant'' 1) ''tenant'') =
     Some \<lparr>Queue = [\<lparr>StartTime = 1000000, Value = 0\<rparr>], Over = False,
           Total = 0, Ver = 2\<rparr> \<and>
   Version (getTenant exampleLimiter ''tenant'') = 1"
  by code_simp

text \<open>
  Claim C1, amended. A call to \<open>Probe\<close> that returns has rotated the tenant's window and
  answers whether the rotated total plus the load fits the maximum load. It leaves the
  whole tenant state, and so the version, unchanged when the window needs no rotation;
  otherwise the version is either unchanged or incremented by exactly one, and it is
  incremented whenever the current segment has to be pushed (empty queue, or a front
  segment older than the request's segment).
\<close>

theorem Probe_version:
  assumes res: "map_option fst (Probe instance t tenantKey load) = Some result"
    and after: "tenantAfter (Probe instance t tenantKey load) tenantKey = Some tenant'"
  shows "\<exists>req. buildLoadRequest (Config instance) t load = Some req \<and>
           rotateWindow (Config instance) req (getTenant instance tenantKey) = Some tenant' \<and>
           result = (WindowTotal tenant' + load \<le> MaxLoad (Config instance)) \<and>
           (\<not> rotateNeeded (Config instance) req (getTenant instance tenantKey) \<longrightarrow>
              tenant' = getTenant instance tenantKey) \<and>
           (Version tenant' = Version (getTenant instance tenantKey) \<or>
            Version tenant' = Version (getTenant instance tenantKey) + 1) \<and>
           (WindowQueue (getTenant instance tenantKey) = [] \<or>
            StartTime (Segments (getTenant instance tenantKey)
                         (hd (WindowQueue (getTenant instance tenantKey)))) <
              RequestSegmentStartTime req \<longrightarrow>
              Version tenant' = Version (getTenant instance tenantKey) + 1)"
proof -
  from res obtain req where req: "buildLoadRequest (Config instance) t load = Some req"
    by (auto simp: Probe_def split: option.splits)
  from res req obtain tenant1 where
    pr: "probe (Config instance) req (getTenant instance tenantKey) = Some (result, tenant1)"
    by (auto simp: Probe_def split: option.splits)
  from after req pr have t1: "tenant1 = tenant'"
    by (simp add: Probe_def tenantAfter_def getTenant_setTenant)
  from pr t1 have rot:
    "rotateWindow (Config instance) req (getTenant instance tenantKey) = Some tenant'"
    and resv: "result = (WindowTotal tenant' + RequestedLoad req \<le> MaxLoad (Config instance))"
    by (auto simp: probe_def split: option.splits)
  from req have ld: "RequestedLoad req = load"
    by (auto simp: buildLoadRequest_def split: option.splits)
  have same: "\<not> rotateNeeded (Config instance) req (getTenant instance tenantKey) \<longrightarrow>
      tenant' = getTenant instance tenantKey"
    using rot rotateWindow_not_needed by fastforce
  have push: "WindowQueue (getTenant instance tenantKey) = [] \<or>
            StartTime (Segments (getTenant instance tenantKey)
                         (hd (WindowQueue (getTenant instance tenantKey)))) <
              RequestSegmentStartTime req \<longrightarrow>
              Version tenant' = Version (getTenant instance tenantKey) + 1"
    using rotateWindow_push_Version[OF rot] by blast
  show ?thesis
    using req rot resv ld same push rotateWindow_Version[OF rot] by blast
qed

text \<open>Witness: the first probe of a fresh tenant.\<close>

theorem Probe_version_witness:
  "map_option fst (Probe exampleLimiter 1000500 ''tenant'' 1) = Some True \<and>
   map_option viewOf (tenantAfter (Probe exampleLimiter 1000500 ''tenant'' 1) ''tenant'') =
     Some \<lparr>Queue = [\<lparr>StartTime = 1000000, Value = 0\<rparr>], Over = False,
           Total = 0, Ver = 2\<rparr> \<and>
   WindowQueue (getTenant exampleLimiter ''tenant'') = [] \<and>
   (\<exists>req tenant'.
      tenantAfter (Probe exampleLimiter 1000500 ''tenant'' 1) ''tenant'' = Some tenant' \<and>
      buildLoadRequest (Config exampleLimiter) 1000500 1 = Some req \<and>
      rotateWindow (Config exampleLimiter) req (getTenant exampleLimiter ''tenant'') =
        Some tenant' \<and>
      Version tenant' = Version (getTenant exampleLimiter ''tenant'') + 1)"
proof -
  have h1: "map_option fst (Probe exampleLimiter 1000500 ''tenant'' 1) = Some True"
    by code_simp
  have v: "map_option viewOf
       (tenantAfter (Probe exampleLimiter 1000500 ''tenant'' 1) ''tenant'') =
     Some \<lparr>Queue = [\<lparr>StartTime = 1000000, Value = 0\<rparr>], Over = False,
           Total = 0, Ver = 2\<rparr>"
    by code_simp
  then obtain tenant' where
    h2: "tenantAfter (Probe exampleLimiter 1000500 ''tenant'' 1) ''tenant'' = Some tenant'"
    by auto
  have empty: "WindowQueue (getTenant exampleLimiter ''tenant'') = []"
    by code_simp
  from Probe_version[OF h1 h2] empty
  have "\<exists>req. buildLoadRequest (Config exampleLimiter) 1000500 1 = Some req \<and>
      rotateWindow (Config exampleLimiter) req (getTenant exampleLimiter ''tenant'') =
        Some tenant' \<and>
      Version tenant' = Version (getTenant exampleLimiter ''tenant'') + 1"
    by blast
  with h1 v h2 empty show ?thesis by blast
qed

section \<open>Rotation, capping and the front segment\<close>











lemma queueSegments_frame [simp]:
  "queueSegments (WasOver_update f tenant) = queueSegments tenant"
  "queueSegments (WindowTotal_update g tenant) = queueSegments tenant"
  "queueSegments (Version_update h tenant) = queueSegments tenant"
  by (simp_all add: queueSegments_def)














lemma WindowQueue_markDirty [simp]:
  "WindowQueue (markDirty tenant) = WindowQueue tenant"
  "Segments (markDirty tenant) = Segments tenant"
  "queueSegments (markDirty tenant) = queueSegments tenant"
  by (simp_all add: markDirty_def queueSegments_def)









section \<open>The current segment after rotation and capping\<close>




section \<open>An accepted submit\<close>








section \<open>The phases of a composite submit\<close>

lemma Config_setTenant [simp]: "Config (setTenant limiter key tenant) = Config limiter"
  by (simp add: setTenant_def)

lemma rejectionResults_Cons:
  "rejectionResults t key load (limiter # limiters) =
     (case memberRejection t key load limiter of
        None \<Rightarrow> []
      | Some (rejectionResult, tenant') \<Rightarrow> [rejectionResult]) @
     rejectionResults t key load limiters"
  by (simp add: rejectionResults_def)

lemma probePhase_spec:
  "probePhase t key load limiters all0 h0 = Some (members, allAccepted, highest) \<Longrightarrow>
    (allAccepted \<longleftrightarrow> all0 \<and> list_all (probesTrue t key load) limiters) \<and>
    highest = foldl (\<lambda>h r. if RetryInAvailable r \<and> (h = 0 \<or> sint (RetryIn r) > sint h)
                            then RetryIn r else h) h0 (rejectionResults t key load limiters) \<and>
    list_all2 (\<lambda>limiter member. \<exists>ok rotated.
        memberProbe t key load limiter = Some (ok, snd member, rotated) \<and>
        (if ok then fst member = setTenant limiter key rotated
         else \<exists>r tenant2. rejectLoad (Config limiter) (snd member) rotated = Some (r, tenant2) \<and>
                fst member = setTenant limiter key tenant2)) limiters members"
proof (induction limiters arbitrary: all0 h0 members allAccepted highest)
  case Nil
  then show ?case by (simp add: rejectionResults_def)
next
  case (Cons limiter limiters)
  from Cons.prems obtain sr where sr: "buildLoadRequest (Config limiter) t load = Some sr"
    by (cases "buildLoadRequest (Config limiter) t load") simp_all
  from Cons.prems sr obtain ok rotated where
    pr: "probe (Config limiter) sr (getTenant limiter key) = Some (ok, rotated)"
    by (cases "probe (Config limiter) sr (getTenant limiter key)") auto
  have mp: "memberProbe t key load limiter = Some (ok, sr, rotated)"
    using sr pr by (simp add: memberProbe_def)
  show ?case
  proof (cases ok)
    case True
    from Cons.prems sr pr True obtain ms where
      rec: "probePhase t key load limiters all0 h0 = Some (ms, allAccepted, highest)"
      and m: "members = (setTenant limiter key rotated, sr) # ms"
      by (cases "probePhase t key load limiters all0 h0") auto
    have rr: "rejectionResults t key load (limiter # limiters) =
              rejectionResults t key load limiters"
      using mp True by (simp add: rejectionResults_Cons memberRejection_def)
    have pt: "probesTrue t key load limiter" using mp True by (simp add: probesTrue_def)
    from Cons.IH[OF rec] show ?thesis
      unfolding rr m using pt mp True by auto
  next
    case False
    from Cons.prems sr pr False obtain r tenant2 where
      rj: "rejectLoad (Config limiter) sr rotated = Some (r, tenant2)"
      by (cases "rejectLoad (Config limiter) sr rotated") auto
    let ?h = "if RetryInAvailable r \<and> (h0 = 0 \<or> sint (RetryIn r) > sint h0)
              then RetryIn r else h0"
    from Cons.prems sr pr False rj obtain ms where
      rec: "probePhase t key load limiters False ?h = Some (ms, allAccepted, highest)"
      and m: "members = (setTenant limiter key tenant2, sr) # ms"
      by (cases "probePhase t key load limiters False ?h") auto
    have rr: "rejectionResults t key load (limiter # limiters) =
              r # rejectionResults t key load limiters"
      using mp False rj by (simp add: rejectionResults_Cons memberRejection_def)
    have pt: "\<not> probesTrue t key load limiter" using mp False by (simp add: probesTrue_def)
    from Cons.IH[OF rec] show ?thesis
      unfolding rr m using pt mp False rj by auto
  qed
qed





lemma sint_zero_iff: "sint (h :: u64) = 0 \<longleftrightarrow> h = 0"
  by (rule signed_eq_0_iff)



lemma compositeSubmit_cases:
  assumes res: "map_option fst (compositeSubmit instance t key load) = Some res"
    and after: "membersAfter (compositeSubmit instance t key load) key = Some tenants'"
  shows "\<exists>members allAccepted highest limiters'.
           probePhase t key load (Limiters instance) True 0 =
             Some (members, allAccepted, highest) \<and>
           (if allAccepted then acceptPhase key members = Some limiters'
            else limiters' = map fst members) \<and>
           res = \<lparr>Accepted = allAccepted,
                  RetryInAvailable = (\<not> allAccepted \<and> 0 < sint highest),
                  RetryIn = highest\<rparr> \<and>
           tenants' = map (\<lambda>limiter. getTenant limiter key) limiters'"
proof (cases "probePhase t key load (Limiters instance) True 0")
  case None
  with res show ?thesis by (simp add: compositeSubmit_def)
next
  case (Some p)
  obtain members allAccepted highest where p: "p = (members, allAccepted, highest)"
    by (cases p) auto
  let ?r = "\<lparr>Accepted = allAccepted,
             RetryInAvailable = (\<not> allAccepted \<and> 0 < sint highest),
             RetryIn = highest\<rparr>"
  let ?phase = "if allAccepted then acceptPhase key members else Some (map fst members)"
  have unf: "compositeSubmit instance t key load =
      (case ?phase of
         None \<Rightarrow> None
       | Some limiters' \<Rightarrow> Some (?r, instance\<lparr>Limiters := limiters'\<rparr>))"
    unfolding compositeSubmit_def Some p by simp
  show ?thesis
  proof (cases ?phase)
    case None
    with res show ?thesis unfolding unf by simp
  next
    case phase: (Some limiters')
    have v: "compositeSubmit instance t key load = Some (?r, instance\<lparr>Limiters := limiters'\<rparr>)"
      unfolding unf phase by simp
    from res have r: "res = ?r" unfolding v by simp
    from after have tv: "tenants' = map (\<lambda>limiter. getTenant limiter key) limiters'"
      unfolding v by (simp add: membersAfter_def)
    have ph: "if allAccepted then acceptPhase key members = Some limiters'
              else limiters' = map fst members"
      using phase by (cases allAccepted) simp_all
    from Some p ph r tv show ?thesis by blast
  qed
qed


lemma list_all2_map_right:
  "list_all2 P xs (map f ys) = list_all2 (\<lambda>x y. P x (f y)) xs ys"
  by (simp add: list_all2_map2)


section \<open>The composite as a conjunction\<close>



section \<open>The members of a rejecting composite\<close>

text \<open>
  Claim C6, as stated, fails: the composite probes every member, and the probe rotates the
  member's window. A member that probed true is therefore not left untouched: with a fresh
  tenant, the rotation pushes the current segment and bumps the version from 1 to 2,
  although the composite rejects.
\<close>

theorem composite_reject_untouched_counterexample:
  "Limiters exampleComposite = [exampleLimiter, exampleStrictLimiter] \<and>
   map_option fst (compositeSubmit exampleComposite 1000500 ''tenant'' 50) =
     Some \<lparr>Accepted = False, RetryInAvailable = False, RetryIn = 0\<rparr> \<and>
   probesTrue 1000500 ''tenant'' 50 exampleLimiter \<and>
   viewOf (getTenant exampleLimiter ''tenant'') =
     \<lparr>Queue = [], Over = False, Total = 0, Ver = 1\<rparr> \<and>
   map_option (map viewOf)
       (membersAfter (compositeSubmit exampleComposite 1000500 ''tenant'' 50) ''tenant'') =
     Some [\<lparr>Queue = [\<lparr>StartTime = 1000000, Value = 0\<rparr>], Over = False,
            Total = 0, Ver = 2\<rparr>,
           \<lparr>Queue = [\<lparr>StartTime = 1000500, Value = 0\<rparr>], Over = True,
            Total = 0, Ver = 3\<rparr>]"
proof -
  have "Limiters exampleComposite = [exampleLimiter, exampleStrictLimiter]"
    by (simp add: exampleComposite_def)
  moreover have "map_option fst (compositeSubmit exampleComposite 1000500 ''tenant'' 50) =
     Some \<lparr>Accepted = False, RetryInAvailable = False, RetryIn = 0\<rparr>"
    by code_simp
  moreover have "probesTrue 1000500 ''tenant'' 50 exampleLimiter" by code_simp
  moreover have "viewOf (getTenant exampleLimiter ''tenant'') =
     \<lparr>Queue = [], Over = False, Total = 0, Ver = 1\<rparr>"
    by code_simp
  moreover have
    "map_option (map viewOf)
       (membersAfter (compositeSubmit exampleComposite 1000500 ''tenant'' 50) ''tenant'') =
     Some [\<lparr>Queue = [\<lparr>StartTime = 1000000, Value = 0\<rparr>], Over = False,
            Total = 0, Ver = 2\<rparr>,
           \<lparr>Queue = [\<lparr>StartTime = 1000500, Value = 0\<rparr>], Over = True,
            Total = 0, Ver = 3\<rparr>]"
    by code_simp
  ultimately show ?thesis by blast
qed

text \<open>
  Claim C6, amended. When a composite submit rejects, every member that probed true is
  left in the state that the window rotation of its probe produced: no load and no penalty
  is added, \<open>WasOver\<close> is unchanged, the state is unchanged altogether when the window
  needed no rotation, and the version is unchanged or incremented by one, as the rotation
  decides. Every other member is in the state that its \<open>rejectLoad\<close> produced.
\<close>

theorem composite_reject_non_rejecters:
  assumes res: "map_option fst (compositeSubmit instance t tenantKey load) = Some res"
    and after: "membersAfter (compositeSubmit instance t tenantKey load) tenantKey = Some tenants'"
    and rej: "\<not> Accepted res"
  shows "list_all2 (\<lambda>limiter tenant'. \<exists>ok req rotated.
      memberProbe t tenantKey load limiter = Some (ok, req, rotated) \<and>
      (if ok
       then tenant' = rotated \<and>
            rotateWindow (Config limiter) req (getTenant limiter tenantKey) = Some tenant' \<and>
            WasOver tenant' = WasOver (getTenant limiter tenantKey) \<and>
            (\<not> rotateNeeded (Config limiter) req (getTenant limiter tenantKey) \<longrightarrow>
               tenant' = getTenant limiter tenantKey) \<and>
            (Version tenant' = Version (getTenant limiter tenantKey) \<or>
             Version tenant' = Version (getTenant limiter tenantKey) + 1)
       else \<exists>r. rejectLoad (Config limiter) req rotated = Some (r, tenant')))
    (Limiters instance) tenants'"
proof -
  let ?ls = "Limiters instance"
  from compositeSubmit_cases[OF res after] obtain members allAccepted highest limiters' where
    pp: "probePhase t tenantKey load ?ls True 0 = Some (members, allAccepted, highest)"
    and ph: "if allAccepted then acceptPhase tenantKey members = Some limiters'
             else limiters' = map fst members"
    and rv: "res = \<lparr>Accepted = allAccepted,
                  RetryInAvailable = (\<not> allAccepted \<and> 0 < sint highest),
                  RetryIn = highest\<rparr>"
    and tv: "tenants' = map (\<lambda>limiter. getTenant limiter tenantKey) limiters'"
    by blast
  from rej rv have "\<not> allAccepted" by simp
  with ph tv have tv': "tenants' = map (\<lambda>member. getTenant (fst member) tenantKey) members"
    by (simp add: comp_def)
  from probePhase_spec[OF pp] have
    mem: "list_all2 (\<lambda>limiter member. \<exists>ok rotated.
        memberProbe t tenantKey load limiter = Some (ok, snd member, rotated) \<and>
        (if ok then fst member = setTenant limiter tenantKey rotated
         else \<exists>r tenant2. rejectLoad (Config limiter) (snd member) rotated = Some (r, tenant2) \<and>
                fst member = setTenant limiter tenantKey tenant2)) ?ls members"
    by simp
  show ?thesis
    unfolding tv' list_all2_map_right
  proof (rule list_all2_mono[OF mem])
    fix limiter member
    assume "\<exists>ok rotated.
        memberProbe t tenantKey load limiter = Some (ok, snd member, rotated) \<and>
        (if ok then fst member = setTenant limiter tenantKey rotated
         else \<exists>r tenant2. rejectLoad (Config limiter) (snd member) rotated = Some (r, tenant2) \<and>
                fst member = setTenant limiter tenantKey tenant2)"
    then obtain ok rotated where
      mp: "memberProbe t tenantKey load limiter = Some (ok, snd member, rotated)"
      and br: "if ok then fst member = setTenant limiter tenantKey rotated
         else \<exists>r tenant2. rejectLoad (Config limiter) (snd member) rotated = Some (r, tenant2) \<and>
                fst member = setTenant limiter tenantKey tenant2"
      by blast
    let ?old = "getTenant limiter tenantKey"
    let ?new = "getTenant (fst member) tenantKey"
    show "\<exists>ok req rotated.
      memberProbe t tenantKey load limiter = Some (ok, req, rotated) \<and>
      (if ok
       then ?new = rotated \<and>
            rotateWindow (Config limiter) req ?old = Some ?new \<and>
            WasOver ?new = WasOver ?old \<and>
            (\<not> rotateNeeded (Config limiter) req ?old \<longrightarrow> ?new = ?old) \<and>
            (Version ?new = Version ?old \<or> Version ?new = Version ?old + 1)
       else \<exists>r. rejectLoad (Config limiter) req rotated = Some (r, ?new))"
    proof (cases ok)
      case True
      with br have n: "?new = rotated" by (simp add: getTenant_setTenant)
      from mp have rot: "rotateWindow (Config limiter) (snd member) ?old = Some rotated"
        by (auto simp: memberProbe_def probe_def split: option.splits)
      have same: "\<not> rotateNeeded (Config limiter) (snd member) ?old \<longrightarrow> rotated = ?old"
        using rot rotateWindow_not_needed by fastforce
      from mp True n rot rotateWindow_WasOver[OF rot] rotateWindow_Version[OF rot] same
      show ?thesis by auto
    next
      case False
      with br obtain r tenant2 where
        "rejectLoad (Config limiter) (snd member) rotated = Some (r, tenant2)"
        "?new = tenant2"
        by (auto simp: getTenant_setTenant)
      with mp False show ?thesis by auto
    qed
  qed
qed

text \<open>Witness: the first member probes true, the second rejects a load above its
  maximum.\<close>

theorem composite_reject_non_rejecters_witness:
  "map_option fst (compositeSubmit exampleComposite 1000500 ''tenant'' 50) =
     Some \<lparr>Accepted = False, RetryInAvailable = False, RetryIn = 0\<rparr> \<and>
   map_option (map viewOf)
       (membersAfter (compositeSubmit exampleComposite 1000500 ''tenant'' 50) ''tenant'') =
     Some [\<lparr>Queue = [\<lparr>StartTime = 1000000, Value = 0\<rparr>], Over = False,
            Total = 0, Ver = 2\<rparr>,
           \<lparr>Queue = [\<lparr>StartTime = 1000500, Value = 0\<rparr>], Over = True,
            Total = 0, Ver = 3\<rparr>] \<and>
   Accepted \<lparr>Accepted = False, RetryInAvailable = False, RetryIn = 0\<rparr> = False \<and>
   (\<exists>tenant1 tenant2 ok req rotated.
      membersAfter (compositeSubmit exampleComposite 1000500 ''tenant'' 50) ''tenant'' =
        Some [tenant1, tenant2] \<and>
      memberProbe 1000500 ''tenant'' 50 exampleLimiter = Some (ok, req, rotated) \<and>
      (if ok
       then rotateWindow (Config exampleLimiter) req (getTenant exampleLimiter ''tenant'') =
              Some tenant1
       else \<exists>r. rejectLoad (Config exampleLimiter) req rotated = Some (r, tenant1)))"
proof -
  have h1: "map_option fst (compositeSubmit exampleComposite 1000500 ''tenant'' 50) =
     Some \<lparr>Accepted = False, RetryInAvailable = False, RetryIn = 0\<rparr>"
    by code_simp
  have v: "map_option (map viewOf)
       (membersAfter (compositeSubmit exampleComposite 1000500 ''tenant'' 50) ''tenant'') =
     Some [\<lparr>Queue = [\<lparr>StartTime = 1000000, Value = 0\<rparr>], Over = False,
            Total = 0, Ver = 2\<rparr>,
           \<lparr>Queue = [\<lparr>StartTime = 1000500, Value = 0\<rparr>], Over = True,
            Total = 0, Ver = 3\<rparr>]"
    by code_simp
  then obtain tenants' where h2:
    "membersAfter (compositeSubmit exampleComposite 1000500 ''tenant'' 50) ''tenant'' =
       Some tenants'"
    by auto
  have h3: "\<not> Accepted \<lparr>Accepted = False, RetryInAvailable = False, RetryIn = 0\<rparr>" by simp
  have ls: "Limiters exampleComposite = [exampleLimiter, exampleStrictLimiter]"
    by (simp add: exampleComposite_def)
  from composite_reject_non_rejecters[OF h1 h2 h3]
  have "\<exists>tenant1 tenant2 ok req rotated.
      tenants' = [tenant1, tenant2] \<and>
      memberProbe 1000500 ''tenant'' 50 exampleLimiter = Some (ok, req, rotated) \<and>
      (if ok
       then rotateWindow (Config exampleLimiter) req (getTenant exampleLimiter ''tenant'') =
              Some tenant1
       else \<exists>r. rejectLoad (Config exampleLimiter) req rotated = Some (r, tenant1))"
    unfolding ls list_all2_Cons1 by (auto split: if_splits)
  with h1 v h2 h3 show ?thesis by auto
qed

section \<open>The retry hint\<close>












end
